theory Spec2Isabelle
  imports Complex_Main "HOL-Library.Word"
begin

unbundle bit_operations_syntax

section \<open>Data model (types/game.ts)\<close>

datatype GameStatus = IN_PROGRESS | PLAYER1_WIN | PLAYER2_WIN | DRAW

datatype PlayerNumber = PLAYER1 | PLAYER2

text \<open>
  The interface \<open>GameState\<close>. A JavaScript \<open>number\<close> that holds a count is an unbounded
  \<open>int\<close> here; the optional field \<open>winner\<close> is \<open>None\<close> when it is \<open>undefined\<close>.
  The field \<open>chairsRemaining\<close> is a parameter of the record: in the value model
  (\<open>GameState\<close>) it is the array's contents, in the store model of the last section it is
  the address of the array.
\<close>

record 'c GameStateOf =
  currentTurn :: int
  chairsRemaining :: 'c
  player1Score :: int
  player2Score :: int
  player1ElectricCount :: int
  player2ElectricCount :: int
  gameStatus :: GameStatus
  winner :: "PlayerNumber option"

type_synonym GameState = "bool list GameStateOf"

record 's TurnResultOf =
  attacker :: PlayerNumber
  defender :: PlayerNumber
  attackerChoice :: int
  defenderChoice :: int
  matched :: bool
  scoreGained :: int
  electricReceived :: bool
  chairRemoved :: "int option"
  newGameState :: 's

type_synonym TurnResult = "GameState TurnResultOf"

definition INITIAL_GAME_STATE :: GameState where
  "INITIAL_GAME_STATE =
     \<lparr> currentTurn = 0, chairsRemaining = replicate 12 True,
       player1Score = 0, player2Score = 0,
       player1ElectricCount = 0, player2ElectricCount = 0,
       gameStatus = IN_PROGRESS, winner = None \<rparr>"

definition MAX_SCORE :: int where "MAX_SCORE = 40"
definition MAX_ELECTRIC_COUNT :: int where "MAX_ELECTRIC_COUNT = 3"
definition MAX_TURNS :: int where "MAX_TURNS = 16"

section \<open>JavaScript arrays of booleans\<close>

text \<open>
  Reading \<open>xs[i]\<close> beyond the end of an array yields \<open>undefined\<close>, which is falsy.
\<close>

definition array_get :: "bool list \<Rightarrow> nat \<Rightarrow> bool" where
  "array_get xs i = (i < length xs \<and> xs ! i)"

text \<open>
  Writing \<open>xs[i] = v\<close>: inside the array the element is replaced; at or beyond the end the
  array grows, and the skipped positions are holes, which every reader in this program
  (\<open>filter\<close>, \<open>map\<close> followed by \<open>filter\<close>, a truthiness test) treats like \<open>false\<close>; a
  negative index sets a property that is no element, so the elements stay as they are.
\<close>

definition array_set :: "bool list \<Rightarrow> int \<Rightarrow> bool \<Rightarrow> bool list" where
  "array_set xs i v =
     (if i < 0 then xs
      else if nat i < length xs then xs[nat i := v]
      else xs @ replicate (nat i - length xs) False @ [v])"

section \<open>Rule engine (utils/gameLogic.ts)\<close>

definition getCurrentAttacker :: "int \<Rightarrow> PlayerNumber" where
  "getCurrentAttacker turn = (if turn mod 2 = 0 then PLAYER1 else PLAYER2)"

definition getCurrentDefender :: "int \<Rightarrow> PlayerNumber" where
  "getCurrentDefender turn = (if turn mod 2 = 0 then PLAYER2 else PLAYER1)"

definition getChairSelector :: "int \<Rightarrow> PlayerNumber" where
  "getChairSelector turn = getCurrentAttacker turn"

definition getElectricSetter :: "int \<Rightarrow> PlayerNumber" where
  "getElectricSetter turn = getCurrentDefender turn"

definition getAvailableChairs :: "GameState \<Rightarrow> int list" where
  "getAvailableChairs gameState =
     filter (\<lambda>chair. chair \<noteq> - 1)
       (map (\<lambda>(remaining, index). if remaining then int index + 1 else - 1)
         (zip (chairsRemaining gameState) [0 ..< length (chairsRemaining gameState)]))"

definition checkGameEnd :: "GameState \<Rightarrow> GameStatus" where
  "checkGameEnd gameState =
     (if player1ElectricCount gameState = MAX_ELECTRIC_COUNT then PLAYER2_WIN
      else if player2ElectricCount gameState = MAX_ELECTRIC_COUNT then PLAYER1_WIN
      else if player1Score gameState \<ge> MAX_SCORE then PLAYER1_WIN
      else if player2Score gameState \<ge> MAX_SCORE then PLAYER2_WIN
      else
        let remainingChairs = length (filter (\<lambda>chair. chair) (chairsRemaining gameState))
        in if remainingChairs = 1 \<or> currentTurn gameState \<ge> MAX_TURNS - 1
           then (if player1Score gameState > player2Score gameState then PLAYER1_WIN
                 else if player2Score gameState > player1Score gameState then PLAYER2_WIN
                 else DRAW)
           else IN_PROGRESS)"

definition getWinner :: "GameState \<Rightarrow> PlayerNumber option" where
  "getWinner gameState =
     (case gameStatus gameState of
        PLAYER1_WIN \<Rightarrow> Some PLAYER1
      | PLAYER2_WIN \<Rightarrow> Some PLAYER2
      | _ \<Rightarrow> None)"

text \<open>
  The branch of \<open>processTurn\<close> on \<open>matched\<close>: the updated copy of the state together with
  \<open>scoreGained\<close>, \<open>electricReceived\<close> and \<open>chairRemoved\<close>.
\<close>

definition applyChoices ::
  "GameState \<Rightarrow> int \<Rightarrow> int \<Rightarrow> GameState \<times> int \<times> bool \<times> int option" where
  "applyChoices newState attChoice defChoice =
     (if attChoice = defChoice then
        (if getCurrentAttacker (currentTurn newState) = PLAYER1
         then newState\<lparr> player1Score := 0,
                         player1ElectricCount := player1ElectricCount newState + 1 \<rparr>
         else newState\<lparr> player2Score := 0,
                         player2ElectricCount := player2ElectricCount newState + 1 \<rparr>,
         0, True, None)
      else
        (let removed = newState\<lparr> chairsRemaining :=
                          array_set (chairsRemaining newState) (attChoice - 1) False \<rparr>
         in if getCurrentAttacker (currentTurn newState) = PLAYER1
            then removed\<lparr> player1Score := player1Score removed + attChoice \<rparr>
            else removed\<lparr> player2Score := player2Score removed + attChoice \<rparr>,
         attChoice, False, Some attChoice))"

text \<open>
  \<open>processTurn\<close> has no \<open>throw\<close> and no early return: it is a total function of its three
  arguments. The status is computed on the updated fields before the turn is advanced.
\<close>

definition processTurn :: "GameState \<Rightarrow> int \<Rightarrow> int \<Rightarrow> TurnResult" where
  "processTurn gameState attChoice defChoice =
     (let (s1, gained, shocked, removed) = applyChoices gameState attChoice defChoice;
          s2 = s1\<lparr> gameStatus := checkGameEnd s1 \<rparr>;
          s3 = s2\<lparr> winner := getWinner s2 \<rparr>;
          s4 = (if gameStatus s3 = IN_PROGRESS
                then s3\<lparr> currentTurn := currentTurn s3 + 1 \<rparr> else s3)
      in \<lparr> attacker = getCurrentAttacker (currentTurn gameState),
           defender = getCurrentDefender (currentTurn gameState),
           attackerChoice = attChoice,
           defenderChoice = defChoice,
           matched = (attChoice = defChoice),
           scoreGained = gained,
           electricReceived = shocked,
           chairRemoved = removed,
           newGameState = s4 \<rparr>)"

text \<open>A choice is legal when it is one of the chairs \<open>getAvailableChairs\<close> lists.\<close>

definition legalChoice :: "GameState \<Rightarrow> int \<Rightarrow> bool" where
  "legalChoice gameState c = (c \<in> set (getAvailableChairs gameState))"

section \<open>State codec (utils/stateHash.ts)\<close>

text \<open>
  A hash is a JavaScript number used through the 32-bit integer operators only, so it is a
  \<open>32 word\<close>: \<open>|\<close> is \<open>OR\<close>, \<open>&\<close> is \<open>AND\<close>, \<open><<\<close> is \<open>push_bit\<close>, the sign-propagating
  \<open>>>\<close> is \<open>signed_drop_bit\<close>, and a count enters an operator through \<open>word_of_int\<close>
  (ToInt32). The number an operator returns is the signed reading \<open>sint\<close> of its result.
\<close>

type_synonym hash = "32 word"

record GameStateHash =
  turn :: int
  chairs :: int
  player1ScoreH :: int
  player2ScoreH :: int
  player1Electric :: int
  player2Electric :: int

definition chairBitsOf :: "bool list \<Rightarrow> hash" where
  "chairBitsOf cs =
     fold (\<lambda>i chairBits. if array_get cs i then chairBits OR push_bit i 1 else chairBits)
       [0 ..< 12] 0"

definition encodeGameStateHash :: "GameState \<Rightarrow> hash" where
  "encodeGameStateHash state =
     (let chairBits = chairBitsOf (chairsRemaining state);
          turnBits = push_bit 28 (word_of_int (currentTurn state) AND 0xF);
          chairsBits = push_bit 16 (chairBits AND 0xFFF);
          p1ScoreBits = push_bit 10 (word_of_int (player1Score state) AND 0x3F);
          p2ScoreBits = push_bit 4 (word_of_int (player2Score state) AND 0x3F);
          p1ElecBits = push_bit 2 (word_of_int (player1ElectricCount state) AND 0x3);
          p2ElecBits = word_of_int (player2ElectricCount state) AND 0x3
      in turnBits OR chairsBits OR p1ScoreBits OR p2ScoreBits OR p1ElecBits OR p2ElecBits)"

definition decodeGameStateHash :: "hash \<Rightarrow> GameStateHash" where
  "decodeGameStateHash h =
     \<lparr> turn = sint (signed_drop_bit 28 h AND 0xF),
       chairs = sint (signed_drop_bit 16 h AND 0xFFF),
       player1ScoreH = sint (signed_drop_bit 10 h AND 0x3F),
       player2ScoreH = sint (signed_drop_bit 4 h AND 0x3F),
       player1Electric = sint (signed_drop_bit 2 h AND 0x3),
       player2Electric = sint (h AND 0x3) \<rparr>"

text \<open>The test \<open>(chairs & (1 << i)) !== 0\<close> on a decoded mask.\<close>

definition chairPresent :: "int \<Rightarrow> nat \<Rightarrow> bool" where
  "chairPresent cmask i = (cmask AND push_bit i 1 \<noteq> 0)"

definition getGameStatusFromHash :: "GameStateHash \<Rightarrow> GameStatus" where
  "getGameStatusFromHash h =
     (if player1Electric h = 3 then PLAYER2_WIN
      else if player2Electric h = 3 then PLAYER1_WIN
      else if player1ScoreH h \<ge> 40 then PLAYER1_WIN
      else if player2ScoreH h \<ge> 40 then PLAYER2_WIN
      else
        let remainingChairs =
              length (filter (\<lambda>remaining. remaining) (map (chairPresent (chairs h)) [0 ..< 12]))
        in if remainingChairs = 1 \<or> turn h \<ge> 16 - 1
           then (if player1ScoreH h > player2ScoreH h then PLAYER1_WIN
                 else if player2ScoreH h > player1ScoreH h then PLAYER2_WIN
                 else DRAW)
           else IN_PROGRESS)"

definition hashToGameState :: "hash \<Rightarrow> GameState" where
  "hashToGameState h =
     (let decoded = decodeGameStateHash h
      in \<lparr> currentTurn = turn decoded,
           chairsRemaining = map (chairPresent (chairs decoded)) [0 ..< 12],
           player1Score = player1ScoreH decoded,
           player2Score = player2ScoreH decoded,
           player1ElectricCount = player1Electric decoded,
           player2ElectricCount = player2Electric decoded,
           gameStatus = getGameStatusFromHash decoded,
           winner = None \<rparr>)"

text \<open>
  The same functions on JavaScript numbers. \<open>encodeGameStateHash\<close> returns the value of its
  last \<open>|\<close>, which is the signed reading of the 32 bits: a number from \<open>-2^31\<close> to
  \<open>2^31 - 1\<close>, negative when bit 31 is set, that is from turn 8 on. The operators \<open>>>\<close> and
  \<open>&\<close> of \<open>decodeGameStateHash\<close> take any number and convert it with ToInt32, which keeps
  the low 32 bits.
\<close>

definition toInt32 :: "int \<Rightarrow> hash" where
  "toInt32 x = word_of_int x"

definition encodeGameStateHashNumber :: "GameState \<Rightarrow> int" where
  "encodeGameStateHashNumber state = sint (encodeGameStateHash state)"

definition hashToGameStateNumber :: "int \<Rightarrow> GameState" where
  "hashToGameStateNumber x = hashToGameState (toInt32 x)"

text \<open>
  The enumerated set on disk. The writer of the hash files stores an encoding as
  \<open>(hash >>> 0).toString(16)\<close>, the unsigned reading in hexadecimal, and the loaders
  (\<open>loadTurnHashRange\<close>, \<open>iterateTurnHashes\<close>) read an entry back with
  \<open>parseInt(hexHash, 16)\<close>: the number loaded for the 32 bits \<open>h\<close> is their unsigned
  reading.
\<close>

definition loadedHash :: "hash \<Rightarrow> int" where
  "loadedHash h = uint h"

section \<open>The two branches of a turn\<close>

definition scoreOf :: "PlayerNumber \<Rightarrow> GameState \<Rightarrow> int" where
  "scoreOf p s = (case p of PLAYER1 \<Rightarrow> player1Score s | PLAYER2 \<Rightarrow> player2Score s)"

definition electricOf :: "PlayerNumber \<Rightarrow> GameState \<Rightarrow> int" where
  "electricOf p s =
     (case p of PLAYER1 \<Rightarrow> player1ElectricCount s | PLAYER2 \<Rightarrow> player2ElectricCount s)"

text \<open>
  The shock branch from \<open>s\<close> to \<open>s'\<close>: the chair selector's score is 0, its shock counter
  is one higher, and the chairs are as before.
\<close>

definition shockBranch :: "GameState \<Rightarrow> GameState \<Rightarrow> bool" where
  "shockBranch s s' =
     (let selector = getChairSelector (currentTurn s)
      in scoreOf selector s' = 0 \<and>
         electricOf selector s' = electricOf selector s + 1 \<and>
         chairsRemaining s' = chairsRemaining s)"

text \<open>
  The score branch for the selector's chair \<open>c\<close>: the selector's score is higher by \<open>c\<close>,
  chair \<open>c\<close> and no other is removed, and the setter's score and shock counter are as
  before.
\<close>

definition scoreBranch :: "GameState \<Rightarrow> int \<Rightarrow> GameState \<Rightarrow> bool" where
  "scoreBranch s c s' =
     (let selector = getChairSelector (currentTurn s);
          setter = getElectricSetter (currentTurn s)
      in scoreOf selector s' = scoreOf selector s + c \<and>
         chairsRemaining s' = (chairsRemaining s)[nat (c - 1) := False] \<and>
         \<not> array_get (chairsRemaining s') (nat (c - 1)) \<and>
         scoreOf setter s' = scoreOf setter s \<and>
         electricOf setter s' = electricOf setter s)"

section \<open>Example states\<close>

text \<open>
  A state at turn 4 in which Player 1 has been shocked twice and chairs 1 and 2 are gone: the
  position after the pairs (1,1), (1,2), (2,2), (2,3).
\<close>

definition twoShocksState :: GameState where
  "twoShocksState =
     \<lparr> currentTurn = 4,
       chairsRemaining = [False, False, True, True, True, True, True, True, True, True, True, True],
       player1Score = 0, player2Score = 3,
       player1ElectricCount = 2, player2ElectricCount = 0,
       gameStatus = IN_PROGRESS, winner = None \<rparr>"

text \<open>
  The position after the pairs (12,1), (1,2), (11,2), (2,3), (10,3), (3,4), (9,4): Player 1
  has taken chairs 12, 11, 10 and 9.
\<close>

definition over40State :: GameState where
  "over40State =
     \<lparr> currentTurn = 6,
       chairsRemaining = [False, False, False, True, True, True, True, True, False, False, False, False],
       player1Score = 42, player2Score = 6,
       player1ElectricCount = 0, player2ElectricCount = 0,
       gameStatus = PLAYER1_WIN, winner = Some PLAYER1 \<rparr>"

text \<open>
  The position after the pairs (1,2), (2,3), (3,4), (4,5), (5,6), (6,7), (7,8), (8,9): eight
  turns have been played and chairs 1 to 8 are gone.
\<close>

definition turn8State :: GameState where
  "turn8State =
     \<lparr> currentTurn = 8,
       chairsRemaining = [False, False, False, False, False, False, False, False, True, True, True, True],
       player1Score = 16, player2Score = 20,
       player1ElectricCount = 0, player2ElectricCount = 0,
       gameStatus = IN_PROGRESS, winner = None \<rparr>"

section \<open>The status rule as the specification words it\<close>

text \<open>
  The field of \<open>width\<close> bits whose lowest bit is bit \<open>lo\<close> of the encoding, read as a number.
\<close>

definition field :: "nat \<Rightarrow> nat \<Rightarrow> hash \<Rightarrow> int" where
  "field lo width h = uint (take_bit width (drop_bit lo h))"

definition popcount12 :: "int \<Rightarrow> nat" where
  "popcount12 c = card {k \<in> {0 ..< 12}. bit c k}"

definition compareScores :: "int \<Rightarrow> int \<Rightarrow> GameStatus" where
  "compareScores scoreA scoreB =
     (if scoreA > scoreB then PLAYER1_WIN else if scoreB > scoreA then PLAYER2_WIN else DRAW)"

text \<open>
  The priority list of the specification, with the score tests as it writes them
  (\<open>scoreA == 40\<close>, \<open>scoreB == 40\<close>), over the bit layout it gives.
\<close>

definition statusExact40 :: "hash \<Rightarrow> GameStatus" where
  "statusExact40 h =
     (if field 2 2 h = 3 then PLAYER2_WIN
      else if field 0 2 h = 3 then PLAYER1_WIN
      else if field 10 6 h = 40 then PLAYER1_WIN
      else if field 4 6 h = 40 then PLAYER2_WIN
      else if popcount12 (field 16 12 h) = 1 \<or> field 28 4 h \<ge> 15
           then compareScores (field 10 6 h) (field 4 6 h)
      else IN_PROGRESS)"

text \<open>The same list with the two score tests read as \<open>at least 40\<close>.\<close>

definition statusAtLeast40 :: "hash \<Rightarrow> GameStatus" where
  "statusAtLeast40 h =
     (if field 2 2 h = 3 then PLAYER2_WIN
      else if field 0 2 h = 3 then PLAYER1_WIN
      else if field 10 6 h \<ge> 40 then PLAYER1_WIN
      else if field 4 6 h \<ge> 40 then PLAYER2_WIN
      else if popcount12 (field 16 12 h) = 1 \<or> field 28 4 h \<ge> 15
           then compareScores (field 10 6 h) (field 4 6 h)
      else IN_PROGRESS)"

section \<open>Reachable states\<close>

text \<open>
  The states of a game: the initial state, and every successor \<open>processTurn\<close> returns from
  a reachable state whose status is in progress, for two chairs that are still present.
\<close>

inductive reachable :: "GameState \<Rightarrow> bool" where
  reachable_init: "reachable INITIAL_GAME_STATE"
| reachable_step:
    "reachable s \<Longrightarrow> gameStatus s = IN_PROGRESS \<Longrightarrow> legalChoice s a \<Longrightarrow> legalChoice s d \<Longrightarrow>
     reachable (newGameState (processTurn s a d))"

text \<open>Playing a list of choice pairs from a state; \<open>None\<close> when a pair is not playable.\<close>

fun playMoves :: "GameState \<Rightarrow> (int \<times> int) list \<Rightarrow> GameState option" where
  "playMoves s [] = Some s"
| "playMoves s ((a, d) # moves) =
     (if gameStatus s = IN_PROGRESS \<and> legalChoice s a \<and> legalChoice s d
      then playMoves (newGameState (processTurn s a d)) moves
      else None)"

text \<open>
  \<open>generateStateTransitions\<close> (utils/stateTransition.ts): the successors of an encoded
  state, as (fromHash, toHash, attackerChoice, defenderChoice). Its \<open>catch\<close> branch is never
  entered, since \<open>processTurn\<close> does not throw.
\<close>

definition generateStateTransitions :: "hash \<Rightarrow> (hash \<times> hash \<times> int \<times> int) list" where
  "generateStateTransitions stateHash =
     (let gameState = hashToGameState stateHash
      in if gameStatus gameState \<noteq> IN_PROGRESS then []
         else
           let availableChairs = getAvailableChairs gameState
           in concat (map (\<lambda>attChoice. map (\<lambda>defChoice.
                (stateHash,
                 encodeGameStateHash (newGameState (processTurn gameState attChoice defChoice)),
                 attChoice, defChoice)) availableChairs) availableChairs))"

text \<open>
  The encodings the enumerator can produce: the encoding of the initial state, and every
  \<open>toHash\<close> of a transition from an encoding already produced. (The breadth-first loop of
  \<open>generateReachableStates\<close> adds exactly these, up to its turn limit.)
\<close>

inductive reachableHash :: "hash \<Rightarrow> bool" where
  reachableHash_init: "reachableHash (encodeGameStateHash INITIAL_GAME_STATE)"
| reachableHash_step:
    "reachableHash h \<Longrightarrow> (h, t, a, d) \<in> set (generateStateTransitions h) \<Longrightarrow>
     reachableHash t"

section \<open>Equilibrium solver: shift and post-processing (NashEquilibriumSolver)\<close>

text \<open>
  Payoffs and probabilities are JavaScript doubles; they are modelled as real numbers, so
  the statements below are about the exact arithmetic the code approximates. The inputs used
  to separate the code from a claim are chosen so that the double arithmetic is exact or
  the comparison is unaffected by rounding.

  \<open>Math.min(...payoffMatrix.flat())\<close> is \<open>Infinity\<close> on an empty list, which is not
  negative.
\<close>

definition shiftOf :: "real list list \<Rightarrow> real" where
  "shiftOf payoffMatrix =
     (case concat payoffMatrix of
        [] \<Rightarrow> 0
      | v # vs \<Rightarrow> (let minValue = fold min vs v
                   in if minValue < 0 then \<bar>minValue\<bar> + 1 else 0))"

text \<open>The shift as the specification words it: \<open>max(0, -min(matrix))\<close>.\<close>

definition shiftSpec :: "real list list \<Rightarrow> real" where
  "shiftSpec payoffMatrix = max 0 (- Min (set (concat payoffMatrix)))"

definition EPSILON :: real where
  "EPSILON = 5 / 10 ^ 8"

text \<open>
  The solution of the LP solver is an object that may lack a variable:
  \<open>solution[`x${i}`] || 0\<close> reads a missing one as 0. Each entry is clipped at 0 from below.
\<close>

definition extractStrategy :: "(nat \<Rightarrow> real option) \<Rightarrow> nat \<Rightarrow> real list" where
  "extractStrategy solution n =
     map (\<lambda>i. max 0 (case solution i of None \<Rightarrow> 0 | Some v \<Rightarrow> v)) [0 ..< n]"

definition normalizeStrategy :: "real list \<Rightarrow> real list" where
  "normalizeStrategy strategy =
     (let denom = foldl (\<lambda>a b. a + b) 0 strategy
      in if denom > EPSILON then map (\<lambda>v. v / denom) strategy
         else replicate (length strategy) (1 / real (length strategy)))"

text \<open>The renormalization as the specification words it: the fallback below \<open>1e-8\<close>.\<close>

definition normalizeSpec :: "real list \<Rightarrow> real list" where
  "normalizeSpec strategy =
     (let denom = sum_list strategy
      in if denom < 1 / 10 ^ 8 then replicate (length strategy) (1 / real (length strategy))
         else map (\<lambda>v. v / denom) strategy)"

section \<open>Analysis progress (AnalysisProgressManager)\<close>











section \<open>An invariant of the reachable states\<close>

definition remainingCount :: "GameState \<Rightarrow> int" where
  "remainingCount s = int (length (filter (\<lambda>chair. chair) (chairsRemaining s)))"

text \<open>
  The last three statements of \<open>processTurn\<close> on the updated copy: status, winner, and the
  turn advanced when the game goes on.
\<close>

definition finishTurn :: "GameState \<Rightarrow> GameState" where
  "finishTurn s1 =
     (let s2 = s1\<lparr> gameStatus := checkGameEnd s1 \<rparr>;
          s3 = s2\<lparr> winner := getWinner s2 \<rparr>
      in if gameStatus s3 = IN_PROGRESS then s3\<lparr> currentTurn := currentTurn s3 + 1 \<rparr> else s3)"

text \<open>
  Ranges of the fields. While a game is in progress, every turn played has either removed a
  chair or shocked a player, so the turn is the number of removed chairs plus the number of
  shocks; with at least two chairs left and at most two shocks each, it is at most 14.
\<close>

definition reachInv :: "GameState \<Rightarrow> bool" where
  "reachInv s =
     (length (chairsRemaining s) = 12 \<and>
      0 \<le> player1Score s \<and> player1Score s \<le> 51 \<and>
      0 \<le> player2Score s \<and> player2Score s \<le> 51 \<and>
      0 \<le> player1ElectricCount s \<and> player1ElectricCount s \<le> 3 \<and>
      0 \<le> player2ElectricCount s \<and> player2ElectricCount s \<le> 3 \<and>
      0 \<le> currentTurn s \<and> currentTurn s \<le> 14 \<and>
      gameStatus s = checkGameEnd s \<and> winner s = getWinner s \<and>
      (gameStatus s = IN_PROGRESS \<longrightarrow>
         2 \<le> remainingCount s \<and>
         currentTurn s =
           12 - remainingCount s + player1ElectricCount s + player2ElectricCount s))"

text \<open>The facts about the updated copy, before the status is computed.\<close>

definition midInv :: "GameState \<Rightarrow> bool" where
  "midInv s =
     (length (chairsRemaining s) = 12 \<and>
      0 \<le> player1Score s \<and> player1Score s \<le> 51 \<and>
      0 \<le> player2Score s \<and> player2Score s \<le> 51 \<and>
      0 \<le> player1ElectricCount s \<and> player1ElectricCount s \<le> 3 \<and>
      0 \<le> player2ElectricCount s \<and> player2ElectricCount s \<le> 3 \<and>
      0 \<le> currentTurn s \<and> currentTurn s \<le> 14 \<and>
      1 \<le> remainingCount s \<and>
      currentTurn s + 1 =
           12 - remainingCount s + player1ElectricCount s + player2ElectricCount s)"

section \<open>processTurn over a store\<close>

text \<open>
  To speak about what \<open>processTurn\<close> mutates, objects and arrays live in a store: a list of
  cells, the address of a cell being its index. Allocation appends a cell. A \<open>GameState\<close>
  object holds the address of its \<open>chairsRemaining\<close> array.
\<close>

type_synonym addr = nat

datatype cell = ArrayCell "bool list" | ObjectCell "addr GameStateOf"

type_synonym store = "cell list"

definition lookup :: "store \<Rightarrow> addr \<Rightarrow> cell option" where
  "lookup h p = (if p < length h then Some (h ! p) else None)"

definition alloc :: "store \<Rightarrow> cell \<Rightarrow> addr \<times> store" where
  "alloc h c = (length h, h @ [c])"

definition withChairs :: "'a GameStateOf \<Rightarrow> 'b \<Rightarrow> 'b GameStateOf" where
  "withChairs obj cs =
     \<lparr> currentTurn = currentTurn obj, chairsRemaining = cs,
       player1Score = player1Score obj, player2Score = player2Score obj,
       player1ElectricCount = player1ElectricCount obj,
       player2ElectricCount = player2ElectricCount obj,
       gameStatus = gameStatus obj, winner = winner obj \<rparr>"

text \<open>The value of the \<open>GameState\<close> at an address: its fields and its array's contents.\<close>

definition readState :: "store \<Rightarrow> addr \<Rightarrow> GameState option" where
  "readState h p =
     (case lookup h p of
        Some (ObjectCell obj) \<Rightarrow>
          (case lookup h (chairsRemaining obj) of
             Some (ArrayCell cs) \<Rightarrow> Some (withChairs obj cs)
           | _ \<Rightarrow> None)
      | _ \<Rightarrow> None)"

text \<open>An assignment to fields of the object at \<open>p\<close>.\<close>

definition updateObject :: "store \<Rightarrow> addr \<Rightarrow> (addr GameStateOf \<Rightarrow> addr GameStateOf) \<Rightarrow> store" where
  "updateObject h p f =
     (case lookup h p of Some (ObjectCell obj) \<Rightarrow> h[p := ObjectCell (f obj)] | _ \<Rightarrow> h)"

text \<open>The assignment \<open>obj.chairsRemaining[i] = v\<close> for the object at \<open>p\<close>.\<close>

definition writeChair :: "store \<Rightarrow> addr \<Rightarrow> int \<Rightarrow> bool \<Rightarrow> store" where
  "writeChair h p i v =
     (case lookup h p of
        Some (ObjectCell obj) \<Rightarrow>
          (case lookup h (chairsRemaining obj) of
             Some (ArrayCell cs) \<Rightarrow> h[chairsRemaining obj := ArrayCell (array_set cs i v)]
           | _ \<Rightarrow> h)
      | _ \<Rightarrow> h)"

text \<open>
  A function of the rule engine that only reads a state, applied to the object at \<open>p\<close>.
\<close>

definition readWith :: "store \<Rightarrow> addr \<Rightarrow> (GameState \<Rightarrow> 'a) \<Rightarrow> 'a \<Rightarrow> 'a" where
  "readWith h p f dflt = (case readState h p of Some s \<Rightarrow> f s | None \<Rightarrow> dflt)"

text \<open>
  The branch on \<open>matched\<close>, on the object \<open>newState\<close>; \<open>att\<close> is the attacker computed at
  the start of \<open>processTurn\<close>.
\<close>

definition applyChoicesStore :: "store \<Rightarrow> addr \<Rightarrow> PlayerNumber \<Rightarrow> int \<Rightarrow> int \<Rightarrow> store" where
  "applyChoicesStore h newState att attChoice defChoice =
     (if attChoice = defChoice then
        (if att = PLAYER1
         then updateObject h newState (\<lambda>ns.
                ns\<lparr> player1Score := 0,
                    player1ElectricCount := player1ElectricCount ns + 1 \<rparr>)
         else updateObject h newState (\<lambda>ns.
                ns\<lparr> player2Score := 0,
                    player2ElectricCount := player2ElectricCount ns + 1 \<rparr>))
      else
        (let hw = writeChair h newState (attChoice - 1) False
         in if att = PLAYER1
            then updateObject hw newState (\<lambda>ns.
                   ns\<lparr> player1Score := player1Score ns + attChoice \<rparr>)
            else updateObject hw newState (\<lambda>ns.
                   ns\<lparr> player2Score := player2Score ns + attChoice \<rparr>)))"

text \<open>
  The assignments of \<open>gameStatus\<close> and \<open>winner\<close> and the advance of the turn, on the object
  \<open>newState\<close>.
\<close>

definition finishTurnStore :: "store \<Rightarrow> addr \<Rightarrow> store" where
  "finishTurnStore h newState =
     (let h4 = updateObject h newState (\<lambda>ns.
                 ns\<lparr> gameStatus := readWith h newState checkGameEnd IN_PROGRESS \<rparr>);
          h5 = updateObject h4 newState (\<lambda>ns.
                 ns\<lparr> winner := readWith h4 newState getWinner None \<rparr>)
      in if readWith h5 newState gameStatus IN_PROGRESS = IN_PROGRESS
         then updateObject h5 newState (\<lambda>ns. ns\<lparr> currentTurn := currentTurn ns + 1 \<rparr>)
         else h5)"

text \<open>
  \<open>processTurn\<close> statement by statement. The spread \<open>[...gameState.chairsRemaining]\<close>
  allocates a new array with the same contents, the object literal allocates \<open>newState\<close> with
  the fields of \<open>gameState\<close> and the new array; every later assignment goes through
  \<open>newState\<close>. The result is \<open>None\<close> when \<open>gameState\<close> is not the address of a state, which
  the type of the argument excludes.
\<close>

definition processTurnStore ::
  "store \<Rightarrow> addr \<Rightarrow> int \<Rightarrow> int \<Rightarrow> (store \<times> addr TurnResultOf) option" where
  "processTurnStore h gameState attChoice defChoice =
     (case lookup h gameState of
        Some (ObjectCell obj) \<Rightarrow>
          (case lookup h (chairsRemaining obj) of
             Some (ArrayCell cs) \<Rightarrow>
               (let att = getCurrentAttacker (currentTurn obj);
                    (copy, h1) = alloc h (ArrayCell cs);
                    (newState, h2) = alloc h1 (ObjectCell (withChairs obj copy));
                    h3 = applyChoicesStore h2 newState att attChoice defChoice;
                    h6 = finishTurnStore h3 newState
                in Some (h6,
                     \<lparr> attacker = att,
                       defender = getCurrentDefender (currentTurn obj),
                       attackerChoice = attChoice,
                       defenderChoice = defChoice,
                       matched = (attChoice = defChoice),
                       scoreGained = (if attChoice = defChoice then 0 else attChoice),
                       electricReceived = (attChoice = defChoice),
                       chairRemoved = (if attChoice = defChoice then None else Some attChoice),
                       newGameState = newState \<rparr>))
           | _ \<Rightarrow> None)
      | _ \<Rightarrow> None)"

text \<open>
  A store that holds the initial state: its array at address 0, the object at address 1.
\<close>

definition initialObject :: "addr GameStateOf" where
  "initialObject = withChairs INITIAL_GAME_STATE 0"

definition initialStore :: store where
  "initialStore = [ArrayCell (replicate 12 True), ObjectCell initialObject]"

text \<open>
  A store that holds the finished game \<open>over40State\<close>: its array at address 0, the object at
  address 1.
\<close>

definition over40Store :: store where
  "over40Store = [ArrayCell (chairsRemaining over40State), ObjectCell (withChairs over40State 0)]"

text \<open>
  The counts and choices are JavaScript numbers, which are doubles. Every integer of
  magnitude at most \<open>2^53\<close> is a double, so the code adds two integers of magnitude at most
  \<open>2^52\<close> exactly; what is said below about a sum for arbitrary arguments is said for such
  integers.
\<close>

definition smallInteger :: "int \<Rightarrow> bool" where
  "smallInteger n = (\<bar>n\<bar> \<le> 2 ^ 52)"

section \<open>Legal choices\<close>

lemma zip_with_index:
  "zip xs [0 ..< length xs] = map (\<lambda>i. (xs ! i, i)) [0 ..< length xs]"
  by (rule nth_equalityI) simp_all

lemma set_getAvailableChairs:
  "set (getAvailableChairs s) =
     {int i + 1 | i. i < length (chairsRemaining s) \<and> chairsRemaining s ! i}"
  by (auto simp: getAvailableChairs_def zip_with_index split: if_splits)

lemma legalChoice_iff:
  "legalChoice s c \<longleftrightarrow>
     1 \<le> c \<and> nat (c - 1) < length (chairsRemaining s) \<and> chairsRemaining s ! nat (c - 1)"
proof
  assume "legalChoice s c"
  then obtain i where "c = int i + 1" "i < length (chairsRemaining s)" "chairsRemaining s ! i"
    by (auto simp: legalChoice_def set_getAvailableChairs)
  then show "1 \<le> c \<and> nat (c - 1) < length (chairsRemaining s) \<and> chairsRemaining s ! nat (c - 1)"
    by simp
next
  assume r: "1 \<le> c \<and> nat (c - 1) < length (chairsRemaining s) \<and> chairsRemaining s ! nat (c - 1)"
  then have "c = int (nat (c - 1)) + 1" by simp
  with r show "legalChoice s c"
    unfolding legalChoice_def set_getAvailableChairs by blast
qed

lemma initial_in_progress: "gameStatus INITIAL_GAME_STATE = IN_PROGRESS"
  by (simp add: INITIAL_GAME_STATE_def)

lemma initial_legal_1: "legalChoice INITIAL_GAME_STATE 1"
  by code_simp

lemma initial_legal_2: "legalChoice INITIAL_GAME_STATE 2"
  by code_simp

section \<open>The decoded fields\<close>

lemma and_mask4: "(x::32 word) AND 0xF = take_bit 4 x"
  and and_mask12: "(x::32 word) AND 0xFFF = take_bit 12 x"
  and and_mask6: "(x::32 word) AND 0x3F = take_bit 6 x"
  and and_mask2: "(x::32 word) AND 0x3 = take_bit 2 x"
  by (simp_all add: take_bit_eq_mask mask_eq_exp_minus_1)

lemmas and_masks = and_mask4 and_mask12 and_mask6 and_mask2

text \<open>Under a mask that fits, the sign-propagating shift reads the same bits as the logical one.\<close>

lemma take_bit_signed_drop_bit:
  "n + k \<le> 32 \<Longrightarrow> take_bit n (signed_drop_bit k (h::32 word)) = take_bit n (drop_bit k h)"
  by (rule bit_word_eqI) (auto simp: bit_simps)

lemma sint_take_bit_small:
  assumes n: "n < 32"
  shows "sint (take_bit n (w::32 word)) = uint (take_bit n w)"
proof -
  have "uint (take_bit n w) = take_bit n (uint w)"
    by (simp add: unsigned_take_bit_eq)
  then have "uint (take_bit n w) < 2 ^ n"
    by simp
  also have "(2::int) ^ n \<le> 2 ^ 31"
    using n by (intro power_increasing) auto
  finally have "uint (take_bit n w) < 2 ^ 31" .
  moreover have "- (2 ^ 31) \<le> uint (take_bit n w)"
    by (rule order_trans [of _ 0]) simp_all
  ultimately show ?thesis
    by (simp add: sint_uint signed_take_bit_int_eq_self)
qed

lemma decode_fields:
  "decodeGameStateHash h =
     \<lparr> turn = field 28 4 h, chairs = field 16 12 h,
       player1ScoreH = field 10 6 h, player2ScoreH = field 4 6 h,
       player1Electric = field 2 2 h, player2Electric = field 0 2 h \<rparr>"
  by (simp add: decodeGameStateHash_def field_def and_masks take_bit_signed_drop_bit
      sint_take_bit_small)

lemma chairPresent_bit: "chairPresent c i \<longleftrightarrow> bit c i"
  by (simp add: chairPresent_def bit_iff_and_push_bit_not_eq_0)

lemma remaining_popcount:
  "length (filter (\<lambda>remaining. remaining) (map (chairPresent c) [0 ..< 12])) = popcount12 c"
proof -
  have "length (filter (\<lambda>remaining. remaining) (map (chairPresent c) [0 ..< 12]))
        = length (filter (bit c) [0 ..< 12])"
    by (simp add: filter_map o_def chairPresent_bit)
  also have "\<dots> = card {k \<in> {0 ..< 12}. bit c k}"
    by (simp add: distinct_length_filter Int_def conj_commute)
  finally show ?thesis
    by (simp add: popcount12_def)
qed

lemma remaining_popcount_comp:
  "length (filter ((\<lambda>remaining. remaining) \<circ> chairPresent c) [0 ..< 12]) = popcount12 c"
  using remaining_popcount [of c] by (simp add: filter_map)

section \<open>Status derivation\<close>

text \<open>
  C1, as the claim states it, fails: the code tests the scores with \<open>>= 40\<close>, not with
  \<open>== 40\<close>. The encoding \<open>0x60F8A860\<close> (turn 6, chairs 4 to 8, scores 42 and 6, no shocks),
  which is the encoding of the state \<open>over40State\<close> that a game can reach, is a win for
  Player 1 in the code and in progress under the exact test.
\<close>

theorem status_exact40_counterexample:
  "encodeGameStateHash over40State = 0x60F8A860 \<and>
   getGameStatusFromHash (decodeGameStateHash 0x60F8A860) = PLAYER1_WIN \<and>
   statusExact40 0x60F8A860 = IN_PROGRESS"
  by code_simp

text \<open>
  C1, amended. For every 32-bit encoding, the status derived from the decoded hash, and the
  status \<open>checkGameEnd\<close> derives from the decoded game state, follow the priority order with
  the score tests read as \<open>at least 40\<close>: shockA = 3 gives a win of Player 2; else shockB = 3 a
  win of Player 1; else scoreA >= 40 a win of Player 1; else scoreB >= 40 a win of Player 2;
  else, when one chair remains or the turn is at least 15, the higher score wins and equal
  scores are a draw; else the state is in progress.
\<close>

theorem status_at_least40:
  "getGameStatusFromHash (decodeGameStateHash h) = statusAtLeast40 h \<and>
   checkGameEnd (hashToGameState h) = statusAtLeast40 h"
  by (simp add: decode_fields hashToGameState_def getGameStatusFromHash_def checkGameEnd_def
      statusAtLeast40_def remaining_popcount_comp compareScores_def Let_def
      MAX_SCORE_def MAX_TURNS_def MAX_ELECTRIC_COUNT_def)

section \<open>The branches of processTurn\<close>

text \<open>
  C2. For an in-progress state and two chairs that are present, \<open>processTurn\<close> takes exactly
  one of two branches. When the choices match: the selector's score is 0, the selector's
  shock counter is one higher, and no chair is removed. When they differ: the selector's
  score is higher by the selector's choice, that chair is removed, and the setter's score
  and shock counter are unchanged.
\<close>

theorem processTurn_branches:
  assumes "gameStatus s = IN_PROGRESS" and "legalChoice s a" and "legalChoice s d"
  shows "(a = d \<longrightarrow> shockBranch s (newGameState (processTurn s a d)) \<and>
                    \<not> scoreBranch s a (newGameState (processTurn s a d))) \<and>
         (a \<noteq> d \<longrightarrow> scoreBranch s a (newGameState (processTurn s a d)) \<and>
                    \<not> shockBranch s (newGameState (processTurn s a d)))"
proof -
  from assms(2) have a: "1 \<le> a" "nat (a - 1) < length (chairsRemaining s)"
    "chairsRemaining s ! nat (a - 1)"
    by (simp_all add: legalChoice_iff)
  have neq: "(chairsRemaining s)[nat (a - 1) := False] \<noteq> chairsRemaining s"
    using a by (metis nth_list_update_eq)
  show ?thesis
    using a neq
    by (auto simp: processTurn_def applyChoices_def Let_def shockBranch_def scoreBranch_def
        getChairSelector_def getElectricSetter_def getCurrentAttacker_def getCurrentDefender_def
        scoreOf_def electricOf_def array_set_def array_get_def)
qed

theorem processTurn_branches_witness:
  "gameStatus INITIAL_GAME_STATE = IN_PROGRESS \<and>
   legalChoice INITIAL_GAME_STATE 1 \<and> legalChoice INITIAL_GAME_STATE 2 \<and>
   shockBranch INITIAL_GAME_STATE (newGameState (processTurn INITIAL_GAME_STATE 1 1)) \<and>
   \<not> scoreBranch INITIAL_GAME_STATE 1 (newGameState (processTurn INITIAL_GAME_STATE 1 1)) \<and>
   scoreBranch INITIAL_GAME_STATE 1 (newGameState (processTurn INITIAL_GAME_STATE 1 2)) \<and>
   \<not> shockBranch INITIAL_GAME_STATE (newGameState (processTurn INITIAL_GAME_STATE 1 2))"
  using processTurn_branches [OF initial_in_progress initial_legal_1 initial_legal_1]
    processTurn_branches [OF initial_in_progress initial_legal_1 initial_legal_2]
    initial_in_progress initial_legal_1 initial_legal_2
  by simp

section \<open>Monotone turn\<close>

text \<open>
  C5. For an in-progress state and a legal pair of choices, the successor returned by
  \<open>processTurn\<close> has the predecessor's turn plus one when its status is in progress, and the
  predecessor's turn unchanged when its status is terminal.
\<close>

theorem processTurn_turn:
  assumes "gameStatus s = IN_PROGRESS" and "legalChoice s a" and "legalChoice s d"
  shows "(gameStatus (newGameState (processTurn s a d)) = IN_PROGRESS \<longrightarrow>
            currentTurn (newGameState (processTurn s a d)) = currentTurn s + 1) \<and>
         (gameStatus (newGameState (processTurn s a d)) \<noteq> IN_PROGRESS \<longrightarrow>
            currentTurn (newGameState (processTurn s a d)) = currentTurn s)"
  by (auto simp: processTurn_def applyChoices_def Let_def split: if_splits)

lemma twoShocks_in_progress: "gameStatus twoShocksState = IN_PROGRESS"
  by (simp add: twoShocksState_def)

lemma twoShocks_legal_3: "legalChoice twoShocksState 3"
  by code_simp

lemma initial_1_2_in_progress:
  "gameStatus (newGameState (processTurn INITIAL_GAME_STATE 1 2)) = IN_PROGRESS"
  by code_simp

lemma twoShocks_3_3_terminal:
  "gameStatus (newGameState (processTurn twoShocksState 3 3)) = PLAYER2_WIN"
  by code_simp

theorem processTurn_turn_witness:
  "gameStatus INITIAL_GAME_STATE = IN_PROGRESS \<and>
   legalChoice INITIAL_GAME_STATE 1 \<and> legalChoice INITIAL_GAME_STATE 2 \<and>
   gameStatus (newGameState (processTurn INITIAL_GAME_STATE 1 2)) = IN_PROGRESS \<and>
   currentTurn (newGameState (processTurn INITIAL_GAME_STATE 1 2)) =
     currentTurn INITIAL_GAME_STATE + 1 \<and>
   gameStatus twoShocksState = IN_PROGRESS \<and> legalChoice twoShocksState 3 \<and>
   gameStatus (newGameState (processTurn twoShocksState 3 3)) \<noteq> IN_PROGRESS \<and>
   currentTurn (newGameState (processTurn twoShocksState 3 3)) = currentTurn twoShocksState"
  using processTurn_turn [OF initial_in_progress initial_legal_1 initial_legal_2]
    processTurn_turn [OF twoShocks_in_progress twoShocks_legal_3 twoShocks_legal_3]
    initial_in_progress initial_legal_1 initial_legal_2 initial_1_2_in_progress
    twoShocks_in_progress twoShocks_legal_3 twoShocks_3_3_terminal
  by simp

section \<open>The shift of the payoff matrix\<close>

text \<open>
  C7, as the claim states it, fails: on a matrix whose minimum is \<open>-1\<close> the code shifts by 2,
  where \<open>max(0, -min)\<close> is 1. Both \<open>solvePlayer1Strategy\<close> and \<open>solvePlayer2Strategy\<close> compute
  the shift with the same two statements, modelled by \<open>shiftOf\<close>.
\<close>

theorem shift_counterexample:
  "shiftOf [[- 1, 0], [0, 1]] = 2 \<and> shiftSpec [[- 1, 0], [0, 1]] = 1"
  by (simp add: shiftOf_def shiftSpec_def)

text \<open>
  C7, amended. In both LP subproblems the shift of a non-empty payoff matrix is 0 when the
  minimum entry is non-negative, and the negation of the minimum entry plus 1 otherwise
  (the sum \<open>Math.abs(minValue) + 1\<close>, which the code rounds to a double).
\<close>

theorem shift_plus_one:
  assumes "concat payoffMatrix \<noteq> []"
  shows "shiftOf payoffMatrix =
           (if 0 \<le> Min (set (concat payoffMatrix)) then 0
            else - Min (set (concat payoffMatrix)) + 1)"
proof -
  define m where "m = Min (set (concat payoffMatrix))"
  from assms obtain v vs where c: "concat payoffMatrix = v # vs"
    by (cases "concat payoffMatrix") auto
  have "fold min vs v = Min (set (v # vs))"
    by (simp only: Min.set_eq_fold)
  then have f: "fold min vs v = m"
    by (simp only: m_def c)
  have "shiftOf payoffMatrix = (if m < 0 then \<bar>m\<bar> + 1 else 0)"
    by (simp add: shiftOf_def c Let_def f)
  also have "\<dots> = (if 0 \<le> m then 0 else - m + 1)"
    by simp
  finally show ?thesis
    by (simp only: m_def)
qed

theorem shift_plus_one_witness:
  "concat [[- 1, 0], [0, 1 :: real]] \<noteq> [] \<and> shiftOf [[- 1, 0], [0, 1]] = 2 \<and>
   concat [[0, 1 / 2], [1, 1 :: real]] \<noteq> [] \<and> shiftOf [[0, 1 / 2], [1, 1]] = 0"
  using shift_plus_one [of "[[- 1, 0], [0, 1]]"] shift_plus_one [of "[[0, 1 / 2], [1, 1]]"]
  by simp

section \<open>Renormalization of a strategy\<close>

lemma foldl_plus_sum_list: "foldl (\<lambda>a b. a + b) a xs = a + sum_list (xs :: real list)"
  by (induction xs arbitrary: a) simp_all

lemma sum_list_divide: "sum_list (map (\<lambda>v. v / t) xs) = sum_list xs / (t::real)"
  by (induction xs) (simp_all add: add_divide_distrib)

lemma extractStrategy_nonneg: "v \<in> set (extractStrategy solution n) \<Longrightarrow> 0 \<le> v"
  by (auto simp: extractStrategy_def)

text \<open>
  C8, as the claim states it, fails: the threshold of the code is \<open>EPSILON = 5e-8\<close>, not
  \<open>1e-8\<close>. For the solution \<open>x0 = 3e-8\<close> (no other variable set) and two rows the denominator
  is \<open>3e-8\<close>, which is not below \<open>1e-8\<close>; the code falls back to the uniform vector, where
  the rule with \<open>1e-8\<close> divides by the sum.
\<close>

theorem normalize_counterexample:
  "normalizeStrategy (extractStrategy (\<lambda>i. if i = 0 then Some (3 / 10 ^ 8) else None) 2)
     = [1 / 2, 1 / 2] \<and>
   normalizeSpec (extractStrategy (\<lambda>i. if i = 0 then Some (3 / 10 ^ 8) else None) 2)
     = [1, 0]"
  by (simp add: normalizeStrategy_def normalizeSpec_def extractStrategy_def EPSILON_def upt_rec)

text \<open>
  C8, amended. After each entry is clipped to be non-negative, the fallback to the uniform
  vector (\<open>1/n\<close> for each of the \<open>n\<close> rows or columns) is taken exactly when the sum of the
  entries is at most \<open>EPSILON = 5e-8\<close>; otherwise each entry is divided by the sum, and the
  result sums to 1.
\<close>

theorem normalize_threshold:
  assumes "strategy = extractStrategy solution n"
  shows "(sum_list strategy \<le> EPSILON \<longrightarrow>
            normalizeStrategy strategy = replicate n (1 / real n)) \<and>
         (sum_list strategy > EPSILON \<longrightarrow>
            normalizeStrategy strategy = map (\<lambda>v. v / sum_list strategy) strategy \<and>
            sum_list (normalizeStrategy strategy) = 1) \<and>
         (\<forall>v \<in> set strategy. 0 \<le> v)"
proof -
  have len: "length strategy = n"
    by (simp add: assms extractStrategy_def)
  have pos: "0 < EPSILON"
    by (simp add: EPSILON_def)
  show ?thesis
    using len pos
    by (auto simp: normalizeStrategy_def Let_def foldl_plus_sum_list sum_list_divide assms
        extractStrategy_nonneg)
qed

theorem normalize_threshold_witness:
  "sum_list (extractStrategy (\<lambda>i. if i = 0 then Some (3 / 10 ^ 8) else None) 2) \<le> EPSILON \<and>
   normalizeStrategy (extractStrategy (\<lambda>i. if i = 0 then Some (3 / 10 ^ 8) else None) 2)
     = replicate 2 (1 / real 2) \<and>
   sum_list (extractStrategy (\<lambda>i. if i = 0 then Some (1 / 4) else Some (- 1)) 2) > EPSILON \<and>
   sum_list (normalizeStrategy
     (extractStrategy (\<lambda>i. if i = 0 then Some (1 / 4) else Some (- 1)) 2)) = 1 \<and>
   (0::real) \<in> set (extractStrategy (\<lambda>i. if i = 0 then Some (1 / 4) else Some (- 1)) 2)"
proof -
  have a: "sum_list (extractStrategy (\<lambda>i. if i = 0 then Some (3 / 10 ^ 8) else None) 2)
             \<le> EPSILON"
    by (simp add: extractStrategy_def EPSILON_def upt_rec)
  have b: "sum_list (extractStrategy (\<lambda>i. if i = 0 then Some (1 / 4) else Some (- 1)) 2)
             > EPSILON"
    by (simp add: extractStrategy_def EPSILON_def upt_rec)
  have c: "(0::real) \<in> set (extractStrategy (\<lambda>i. if i = 0 then Some (1 / 4) else Some (- 1)) 2)"
    by (simp add: extractStrategy_def upt_rec)
  from a b c
    normalize_threshold [OF refl, of "\<lambda>i. if i = 0 then Some (3 / 10 ^ 8) else None" 2]
    normalize_threshold [OF refl, of "\<lambda>i. if i = 0 then Some (1 / 4) else Some (- 1)" 2]
  show ?thesis
    by blast
qed

section \<open>The next batch\<close>












section \<open>The invariant holds in every reachable state\<close>

lemma newGameState_processTurn:
  "newGameState (processTurn s a d) = finishTurn (fst (applyChoices s a d))"
  by (simp add: processTurn_def finishTurn_def Let_def split: prod.splits)

lemma checkGameEnd_in_progress_iff:
  "checkGameEnd s = IN_PROGRESS \<longleftrightarrow>
     player1ElectricCount s \<noteq> 3 \<and> player2ElectricCount s \<noteq> 3 \<and>
     player1Score s < 40 \<and> player2Score s < 40 \<and>
     remainingCount s \<noteq> 1 \<and> currentTurn s < 15"
  by (auto simp: checkGameEnd_def remainingCount_def Let_def MAX_SCORE_def MAX_TURNS_def
      MAX_ELECTRIC_COUNT_def)

lemma checkGameEnd_cong:
  "checkGameEnd (s\<lparr> gameStatus := st, winner := w \<rparr>) = checkGameEnd s"
  by (simp add: checkGameEnd_def)

lemma filter_update_False:
  "i < length cs \<Longrightarrow> cs ! i \<Longrightarrow>
   Suc (length (filter (\<lambda>chair. chair) (cs[i := False]))) = length (filter (\<lambda>chair. chair) cs)"
proof (induction cs arbitrary: i)
  case Nil
  then show ?case by simp
next
  case (Cons c cs)
  then show ?case by (cases i) auto
qed

lemma applyChoices_midInv:
  assumes inv: "reachInv s" and st: "gameStatus s = IN_PROGRESS"
    and a: "legalChoice s a"
  shows "midInv (fst (applyChoices s a d))"
proof -
  from inv st have ip: "checkGameEnd s = IN_PROGRESS"
    by (simp add: reachInv_def)
  from a inv have a12: "1 \<le> a" "a \<le> 12" "nat (a - 1) < length (chairsRemaining s)"
    "chairsRemaining s ! nat (a - 1)"
    by (auto simp: legalChoice_iff reachInv_def)
  have rem: "remainingCount (s\<lparr> chairsRemaining := (chairsRemaining s)[nat (a - 1) := False] \<rparr>)
             = remainingCount s - 1"
    using filter_update_False [OF a12(3) a12(4)] by (simp add: remainingCount_def)
  have rem_upd: "\<And>f. remainingCount (player1Score_update f s) = remainingCount s"
    "\<And>f. remainingCount (player2Score_update f s) = remainingCount s"
    by (simp_all add: remainingCount_def)
  show ?thesis
    using inv st ip a12 rem
    by (auto simp: applyChoices_def midInv_def reachInv_def checkGameEnd_in_progress_iff
        array_set_def Let_def remainingCount_def)
qed

lemma finishTurn_reachInv:
  assumes "midInv s1"
  shows "reachInv (finishTurn s1)"
proof (cases "checkGameEnd s1 = IN_PROGRESS")
  case True
  define s' where "s' = finishTurn s1"
  have fields: "currentTurn s' = currentTurn s1 + 1" "chairsRemaining s' = chairsRemaining s1"
    "player1Score s' = player1Score s1" "player2Score s' = player2Score s1"
    "player1ElectricCount s' = player1ElectricCount s1"
    "player2ElectricCount s' = player2ElectricCount s1"
    "gameStatus s' = IN_PROGRESS" "winner s' = None" "getWinner s' = None"
    "remainingCount s' = remainingCount s1"
    using True by (simp_all add: s'_def finishTurn_def getWinner_def remainingCount_def)
  from True have ip: "player1ElectricCount s1 \<noteq> 3" "player2ElectricCount s1 \<noteq> 3"
    "player1Score s1 < 40" "player2Score s1 < 40" "remainingCount s1 \<noteq> 1"
    by (simp_all add: checkGameEnd_in_progress_iff)
  from assms have m: "length (chairsRemaining s1) = 12"
      "0 \<le> player1Score s1" "0 \<le> player2Score s1"
      "0 \<le> player1ElectricCount s1" "player1ElectricCount s1 \<le> 3"
      "0 \<le> player2ElectricCount s1" "player2ElectricCount s1 \<le> 3"
      "0 \<le> currentTurn s1" "1 \<le> remainingCount s1"
      "currentTurn s1 + 1 =
           12 - remainingCount s1 + player1ElectricCount s1 + player2ElectricCount s1"
    by (simp_all add: midInv_def)
  from ip m have turn: "currentTurn s1 + 1 \<le> 14"
    by linarith
  have ce: "checkGameEnd s' = IN_PROGRESS"
    unfolding checkGameEnd_in_progress_iff fields using ip turn by simp
  show ?thesis
    unfolding s'_def [symmetric] reachInv_def fields ce
    using ip m turn by simp
next
  case False
  define s' where "s' = finishTurn s1"
  have fields: "currentTurn s' = currentTurn s1" "chairsRemaining s' = chairsRemaining s1"
    "player1Score s' = player1Score s1" "player2Score s' = player2Score s1"
    "player1ElectricCount s' = player1ElectricCount s1"
    "player2ElectricCount s' = player2ElectricCount s1"
    "gameStatus s' = checkGameEnd s1" "winner s' = getWinner s'"
    using False by (simp_all add: s'_def finishTurn_def getWinner_def Let_def)
  have ce: "checkGameEnd s' = checkGameEnd s1"
    by (simp add: checkGameEnd_def fields)
  show ?thesis
    unfolding s'_def [symmetric] reachInv_def ce
    using assms False by (simp add: fields midInv_def)
qed

lemma initial_reachInv: "reachInv INITIAL_GAME_STATE"
  by (simp add: reachInv_def INITIAL_GAME_STATE_def checkGameEnd_def getWinner_def
      remainingCount_def MAX_SCORE_def MAX_TURNS_def MAX_ELECTRIC_COUNT_def)

lemma reachable_reachInv: "reachable s \<Longrightarrow> reachInv s"
proof (induction rule: reachable.induct)
  case reachable_init
  show ?case by (rule initial_reachInv)
next
  case (reachable_step s a d)
  then show ?case
    by (simp add: newGameState_processTurn finishTurn_reachInv applyChoices_midInv)
qed

section \<open>Reaching the example states\<close>

lemma playMoves_reachable:
  "reachable s \<Longrightarrow> playMoves s moves = Some s' \<Longrightarrow> reachable s'"
proof (induction moves arbitrary: s)
  case Nil
  then show ?case by simp
next
  case (Cons m moves)
  obtain a d where m: "m = (a, d)" by (cases m)
  from Cons.prems(2) have ok: "gameStatus s = IN_PROGRESS" "legalChoice s a" "legalChoice s d"
    and rest: "playMoves (newGameState (processTurn s a d)) moves = Some s'"
    by (simp_all add: m split: if_splits)
  from Cons.prems(1) ok have "reachable (newGameState (processTurn s a d))"
    by (rule reachable_step)
  then show ?case
    using rest by (rule Cons.IH)
qed

lemma play_over40:
  "playMoves INITIAL_GAME_STATE [(12, 1), (1, 2), (11, 2), (2, 3), (10, 3), (3, 4), (9, 4)]
     = Some over40State"
  by code_simp

lemma play_twoShocks:
  "playMoves INITIAL_GAME_STATE [(1, 1), (1, 2), (2, 2), (2, 3)] = Some twoShocksState"
  by code_simp

lemma reachable_over40: "reachable over40State"
  using reachable_init play_over40 by (rule playMoves_reachable)

lemma reachable_twoShocks: "reachable twoShocksState"
  using reachable_init play_twoShocks by (rule playMoves_reachable)

section \<open>Encoding and decoding\<close>

lemma bit_chairBits_gen:
  "bit (fold (\<lambda>i chairBits. if array_get cs i then chairBits OR push_bit i 1 else chairBits)
       [0 ..< m] (acc::32 word)) n \<longleftrightarrow> bit acc n \<or> (n < m \<and> n < 32 \<and> array_get cs n)"
  by (induction m) (auto simp: bit_simps less_Suc_eq)

lemma bit_chairBitsOf: "bit (chairBitsOf cs) n \<longleftrightarrow> n < 12 \<and> array_get cs n"
  by (auto simp: chairBitsOf_def bit_chairBits_gen)

lemma encode_pieces:
  "encodeGameStateHash s =
     push_bit 28 (take_bit 4 (word_of_int (currentTurn s))) OR
     push_bit 16 (chairBitsOf (chairsRemaining s)) OR
     push_bit 10 (take_bit 6 (word_of_int (player1Score s))) OR
     push_bit 4 (take_bit 6 (word_of_int (player2Score s))) OR
     push_bit 2 (take_bit 2 (word_of_int (player1ElectricCount s))) OR
     take_bit 2 (word_of_int (player2ElectricCount s))"
proof -
  have "take_bit 12 (chairBitsOf (chairsRemaining s)) = chairBitsOf (chairsRemaining s)"
    by (rule bit_word_eqI) (auto simp: bit_simps bit_chairBitsOf)
  then show ?thesis
    by (simp add: encodeGameStateHash_def Let_def and_masks)
qed

lemma uint_take_bit_of_int:
  "n \<le> 32 \<Longrightarrow> uint (take_bit n (word_of_int k :: 32 word)) = k mod 2 ^ n"
proof -
  assume n: "n \<le> 32"
  have "uint (take_bit n (word_of_int k :: 32 word)) = take_bit n (take_bit 32 k)"
    by (simp only: unsigned_take_bit_eq uint_word_of_int_eq) simp
  also have "\<dots> = take_bit n k"
    using n by (simp add: min_def)
  finally show ?thesis
    by (simp add: take_bit_eq_mod)
qed

lemma field_encode_turn: "field 28 4 (encodeGameStateHash s) = currentTurn s mod 16"
proof -
  have "take_bit 4 (drop_bit 28 (encodeGameStateHash s)) = take_bit 4 (word_of_int (currentTurn s))"
    unfolding encode_pieces by (rule bit_word_eqI) (auto simp: bit_simps bit_chairBitsOf)
  then show ?thesis
    by (simp add: field_def uint_take_bit_of_int)
qed

lemma field_encode_chairs:
  "field 16 12 (encodeGameStateHash s) = uint (chairBitsOf (chairsRemaining s))"
proof -
  have "take_bit 12 (drop_bit 16 (encodeGameStateHash s)) = chairBitsOf (chairsRemaining s)"
    unfolding encode_pieces by (rule bit_word_eqI) (auto simp: bit_simps bit_chairBitsOf)
  then show ?thesis
    by (simp add: field_def)
qed

lemma field_encode_score1: "field 10 6 (encodeGameStateHash s) = player1Score s mod 64"
proof -
  have "take_bit 6 (drop_bit 10 (encodeGameStateHash s)) = take_bit 6 (word_of_int (player1Score s))"
    unfolding encode_pieces by (rule bit_word_eqI) (auto simp: bit_simps bit_chairBitsOf)
  then show ?thesis
    by (simp add: field_def uint_take_bit_of_int)
qed

lemma field_encode_score2: "field 4 6 (encodeGameStateHash s) = player2Score s mod 64"
proof -
  have "take_bit 6 (drop_bit 4 (encodeGameStateHash s)) = take_bit 6 (word_of_int (player2Score s))"
    unfolding encode_pieces by (rule bit_word_eqI) (auto simp: bit_simps bit_chairBitsOf)
  then show ?thesis
    by (simp add: field_def uint_take_bit_of_int)
qed

lemma field_encode_electric1: "field 2 2 (encodeGameStateHash s) = player1ElectricCount s mod 4"
proof -
  have "take_bit 2 (drop_bit 2 (encodeGameStateHash s)) = take_bit 2 (word_of_int (player1ElectricCount s))"
    unfolding encode_pieces by (rule bit_word_eqI) (auto simp: bit_simps bit_chairBitsOf)
  then show ?thesis
    by (simp add: field_def uint_take_bit_of_int)
qed

lemma field_encode_electric2: "field 0 2 (encodeGameStateHash s) = player2ElectricCount s mod 4"
proof -
  have "take_bit 2 (drop_bit 0 (encodeGameStateHash s)) = take_bit 2 (word_of_int (player2ElectricCount s))"
    unfolding encode_pieces by (rule bit_word_eqI) (auto simp: bit_simps bit_chairBitsOf)
  then show ?thesis
    by (simp add: field_def uint_take_bit_of_int)
qed

lemmas field_encode = field_encode_turn field_encode_chairs field_encode_score1
  field_encode_score2 field_encode_electric1 field_encode_electric2

lemma chairs_of_chairBits:
  assumes "length cs = 12"
  shows "map (chairPresent (uint (chairBitsOf cs))) [0 ..< 12] = cs"
proof (rule nth_equalityI)
  show "length (map (chairPresent (uint (chairBitsOf cs))) [0 ..< 12]) = length cs"
    using assms by simp
next
  fix i
  assume "i < length (map (chairPresent (uint (chairBitsOf cs))) [0 ..< 12])"
  then have i: "i < 12" by simp
  then have "map (chairPresent (uint (chairBitsOf cs))) [0 ..< 12] ! i
             = chairPresent (uint (chairBitsOf cs)) i"
    by (simp del: upt_Suc)
  also have "\<dots> = cs ! i"
    using i assms by (simp add: chairPresent_bit bit_uint_iff bit_chairBitsOf array_get_def)
  finally show "map (chairPresent (uint (chairBitsOf cs))) [0 ..< 12] ! i = cs ! i" .
qed

lemma decode_encode:
  assumes inv: "reachInv s"
  shows "hashToGameState (encodeGameStateHash s) = s\<lparr> winner := None \<rparr>"
proof -
  from inv have r: "length (chairsRemaining s) = 12"
    "0 \<le> player1Score s" "player1Score s \<le> 51" "0 \<le> player2Score s" "player2Score s \<le> 51"
    "0 \<le> player1ElectricCount s" "player1ElectricCount s \<le> 3"
    "0 \<le> player2ElectricCount s" "player2ElectricCount s \<le> 3"
    "0 \<le> currentTurn s" "currentTurn s \<le> 14" "gameStatus s = checkGameEnd s"
    by (simp_all add: reachInv_def)
  have f: "field 28 4 (encodeGameStateHash s) = currentTurn s"
    "field 10 6 (encodeGameStateHash s) = player1Score s"
    "field 4 6 (encodeGameStateHash s) = player2Score s"
    "field 2 2 (encodeGameStateHash s) = player1ElectricCount s"
    "field 0 2 (encodeGameStateHash s) = player2ElectricCount s"
    using r by (simp_all add: field_encode)
  have c: "map (chairPresent (field 16 12 (encodeGameStateHash s))) [0 ..< 12] = chairsRemaining s"
    by (simp only: field_encode_chairs chairs_of_chairBits [OF r(1)])
  have st: "getGameStatusFromHash (decodeGameStateHash (encodeGameStateHash s)) = checkGameEnd s"
    by (simp add: decode_fields getGameStatusFromHash_def checkGameEnd_def f c Let_def
        MAX_SCORE_def MAX_TURNS_def MAX_ELECTRIC_COUNT_def del: upt_Suc)
  show ?thesis
    by (cases s) (use f c st r(12) in \<open>simp add: hashToGameState_def decode_fields Let_def del: upt_Suc\<close>)
qed

lemma chairBits_of_chairs:
  "chairBitsOf (map (chairPresent (field 16 12 x)) [0 ..< 12]) = take_bit 12 (drop_bit 16 x)"
proof (rule bit_word_eqI)
  fix n
  assume "n < LENGTH(32)"
  show "bit (chairBitsOf (map (chairPresent (field 16 12 x)) [0 ..< 12])) n
        = bit (take_bit 12 (drop_bit 16 x)) n"
  proof (cases "n < 12")
    case True
    then have "array_get (map (chairPresent (field 16 12 x)) [0 ..< 12]) n
               = chairPresent (field 16 12 x) n"
      by (simp add: array_get_def del: upt_Suc)
    with True show ?thesis
      by (simp add: bit_chairBitsOf chairPresent_bit field_def bit_uint_iff bit_simps)
  next
    case False
    then show ?thesis
      by (simp add: bit_chairBitsOf bit_simps)
  qed
qed

lemma of_int_field: "word_of_int (field lo w x) = take_bit w (drop_bit lo x)"
  by (simp add: field_def)

lemma join_field:
  "push_bit k (take_bit w (drop_bit k x)) OR take_bit k x = take_bit (k + w) (x::32 word)"
proof (rule bit_word_eqI)
  fix n
  assume "n < LENGTH(32)"
  show "bit (push_bit k (take_bit w (drop_bit k x)) OR take_bit k x) n
        = bit (take_bit (k + w) x) n"
  proof (cases "k \<le> n")
    case True
    then have "k + (n - k) = n" by simp
    with True show ?thesis
      by (auto simp: bit_simps dest: bit_imp_le_length)
  next
    case False
    then show ?thesis
      by (auto simp: bit_simps dest: bit_imp_le_length)
  qed
qed

lemma take_bit_32: "take_bit 32 (x::32 word) = x"
  by (rule bit_word_eqI) (simp add: bit_simps)

lemma encode_decode: "encodeGameStateHash (hashToGameState x) = x"
proof -
  have "encodeGameStateHash (hashToGameState x) =
     push_bit 28 (take_bit 4 (drop_bit 28 x)) OR
     push_bit 16 (take_bit 12 (drop_bit 16 x)) OR
     push_bit 10 (take_bit 6 (drop_bit 10 x)) OR
     push_bit 4 (take_bit 6 (drop_bit 4 x)) OR
     push_bit 2 (take_bit 2 (drop_bit 2 x)) OR
     take_bit 2 x"
    unfolding encode_pieces
    by (simp add: hashToGameState_def decode_fields Let_def chairBits_of_chairs of_int_field
        del: upt_Suc)
  also have "\<dots> = x"
    using join_field [of 2 2 x] join_field [of 4 6 x] join_field [of 10 6 x]
      join_field [of 16 12 x] join_field [of 28 4 x]
    by (simp add: take_bit_32)
  finally show ?thesis .
qed

lemma top_bits_turn: "uint (drop_bit 28 x) = currentTurn (hashToGameState x)"
proof -
  have "take_bit 4 (drop_bit 28 x) = drop_bit 28 x"
    by (rule bit_word_eqI) (auto simp: bit_simps dest: bit_imp_le_length)
  then show ?thesis
    by (simp add: hashToGameState_def decode_fields Let_def field_def)
qed

section \<open>The enumerated encodings\<close>

lemma applyChoices_winner:
  "fst (applyChoices (s\<lparr> winner := w \<rparr>) a d) = (fst (applyChoices s a d))\<lparr> winner := w \<rparr>"
  by (simp add: applyChoices_def Let_def)

lemma finishTurn_winner: "finishTurn (s\<lparr> winner := w \<rparr>) = finishTurn s"
  by (simp add: finishTurn_def Let_def checkGameEnd_def getWinner_def)

lemma processTurn_winner:
  "newGameState (processTurn (s\<lparr> winner := w \<rparr>) a d) = newGameState (processTurn s a d)"
  by (simp add: newGameState_processTurn applyChoices_winner finishTurn_winner)

lemma legalChoice_winner: "legalChoice (s\<lparr> winner := w \<rparr>) c = legalChoice s c"
  by (simp add: legalChoice_def getAvailableChairs_def)

text \<open>The transitions of the encoding of a reachable state are the legal turns from it.\<close>

lemma transitions_of_encoding:
  assumes "reachable s"
  shows "(encodeGameStateHash s, t, a, d) \<in> set (generateStateTransitions (encodeGameStateHash s))
         \<longleftrightarrow> gameStatus s = IN_PROGRESS \<and> legalChoice s a \<and> legalChoice s d \<and>
             t = encodeGameStateHash (newGameState (processTurn s a d))"
proof -
  from assms have d: "hashToGameState (encodeGameStateHash s) = s\<lparr> winner := None \<rparr>"
    by (intro decode_encode reachable_reachInv)
  have av: "getAvailableChairs (s\<lparr> winner := None \<rparr>) = getAvailableChairs s"
    by (simp add: getAvailableChairs_def)
  show ?thesis
    by (auto simp: generateStateTransitions_def Let_def d processTurn_winner av legalChoice_def)
qed

lemma reachableHash_encoding: "reachableHash h \<Longrightarrow> \<exists>s. reachable s \<and> h = encodeGameStateHash s"
proof (induction rule: reachableHash.induct)
  case reachableHash_init
  show ?case using reachable_init by blast
next
  case (reachableHash_step h t a d)
  then obtain s where s: "reachable s" "h = encodeGameStateHash s"
    by blast
  from reachableHash_step.hyps(2) have
    "gameStatus s = IN_PROGRESS \<and> legalChoice s a \<and> legalChoice s d \<and>
     t = encodeGameStateHash (newGameState (processTurn s a d))"
    unfolding s(2) transitions_of_encoding [OF s(1)] .
  with s(1) have "reachable (newGameState (processTurn s a d)) \<and>
      t = encodeGameStateHash (newGameState (processTurn s a d))"
    by (auto intro: reachable_step)
  then show ?case by blast
qed

lemma reachable_encoding: "reachable s \<Longrightarrow> reachableHash (encodeGameStateHash s)"
proof (induction rule: reachable.induct)
  case reachable_init
  show ?case by (rule reachableHash_init)
next
  case (reachable_step s a d)
  have "(encodeGameStateHash s, encodeGameStateHash (newGameState (processTurn s a d)), a, d)
          \<in> set (generateStateTransitions (encodeGameStateHash s))"
    unfolding transitions_of_encoding [OF reachable_step.hyps(1)]
    using reachable_step.hyps by simp
  with reachable_step.IH show ?case
    by (rule reachableHash_step)
qed

lemma decoded_scores:
  assumes "reachInv s"
  shows "player1ScoreH (decodeGameStateHash (encodeGameStateHash s)) = player1Score s"
    and "player2ScoreH (decodeGameStateHash (encodeGameStateHash s)) = player2Score s"
  using assms by (simp_all add: decode_fields field_encode reachInv_def)

text \<open>The enumerated encodings are the encodings of the reachable states.\<close>

lemma reachableHash_iff: "reachableHash h \<longleftrightarrow> (\<exists>s. reachable s \<and> h = encodeGameStateHash s)"
  using reachableHash_encoding reachable_encoding by blast

lemma encode_over40: "encodeGameStateHash over40State = 0x60F8A860"
  by code_simp

lemma reachableHash_over40: "reachableHash 0x60F8A860"
  using reachable_encoding [OF reachable_over40] by (simp only: encode_over40)

section \<open>Scores of reachable states\<close>

text \<open>
  C4, as the claim states it, fails: a score above 40 is reachable. After the pairs
  (12,1), (1,2), (11,2), (2,3), (10,3), (3,4), (9,4) Player 1 holds 12 + 11 + 10 + 9 = 42,
  and the enumerator produces the encoding of this state.
\<close>

theorem score_bound_counterexample:
  "reachable over40State \<and> 40 < player1Score over40State \<and>
   reachableHash 0x60F8A860 \<and> 40 < player1ScoreH (decodeGameStateHash 0x60F8A860)"
proof -
  have "40 < player1ScoreH (decodeGameStateHash 0x60F8A860)"
    by code_simp
  with reachable_over40 reachableHash_over40 show ?thesis
    by (simp add: over40State_def)
qed

text \<open>
  C4, amended. In every state reachable from the initial state by \<open>processTurn\<close> with legal
  choices, both scores are between 0 and 51, and at most 39 while the state is in progress
  (a score of 40 or more ends the game, and the last chair taken adds at most 12). The same
  bound of 51 holds for the scores decoded from every encoding the enumerator produces.
\<close>

theorem reachable_scores:
  "(reachable s \<longrightarrow>
      0 \<le> player1Score s \<and> player1Score s \<le> 51 \<and>
      0 \<le> player2Score s \<and> player2Score s \<le> 51 \<and>
      (gameStatus s = IN_PROGRESS \<longrightarrow> player1Score s \<le> 39 \<and> player2Score s \<le> 39)) \<and>
   (reachableHash h \<longrightarrow>
      player1ScoreH (decodeGameStateHash h) \<le> 51 \<and>
      player2ScoreH (decodeGameStateHash h) \<le> 51)"
proof -
  have states: "0 \<le> player1Score s \<and> player1Score s \<le> 51 \<and>
      0 \<le> player2Score s \<and> player2Score s \<le> 51 \<and>
      (gameStatus s = IN_PROGRESS \<longrightarrow> player1Score s \<le> 39 \<and> player2Score s \<le> 39)"
    if "reachable s" for s
  proof -
    from that have inv: "reachInv s"
      by (rule reachable_reachInv)
    then have "gameStatus s = IN_PROGRESS \<longrightarrow> checkGameEnd s = IN_PROGRESS"
      by (simp add: reachInv_def)
    with inv show ?thesis
      by (auto simp: reachInv_def checkGameEnd_in_progress_iff)
  qed
  have hashes: "player1ScoreH (decodeGameStateHash h) \<le> 51 \<and>
      player2ScoreH (decodeGameStateHash h) \<le> 51" if "reachableHash h"
  proof -
    from that obtain s' where s': "reachable s'" "h = encodeGameStateHash s'"
      using reachableHash_encoding by blast
    from s'(1) have "reachInv s'"
      by (rule reachable_reachInv)
    then show ?thesis
      using states [OF s'(1)] by (simp add: s'(2) decoded_scores)
  qed
  from states hashes show ?thesis
    by blast
qed

lemma twoShocks_score2: "player2Score twoShocksState \<le> 39"
  by (simp add: twoShocksState_def)

theorem reachable_scores_witness:
  "reachable twoShocksState \<and> gameStatus twoShocksState = IN_PROGRESS \<and>
   player2Score twoShocksState \<le> 39 \<and>
   reachable over40State \<and> player1Score over40State \<le> 51 \<and>
   reachableHash 0x60F8A860 \<and> player1ScoreH (decodeGameStateHash 0x60F8A860) \<le> 51"
  using reachable_scores [of twoShocksState "0x60F8A860"] reachable_scores [of over40State 0]
    reachable_twoShocks reachable_over40 reachableHash_over40 twoShocks_in_progress
  by simp

section \<open>The round trip\<close>

lemma play_turn8:
  "playMoves INITIAL_GAME_STATE
     [(1, 2), (2, 3), (3, 4), (4, 5), (5, 6), (6, 7), (7, 8), (8, 9)] = Some turn8State"
  by code_simp

lemma reachable_turn8: "reachable turn8State"
  using reachable_init play_turn8 by (rule playMoves_reachable)

lemma encode_turn8: "encodeGameStateHash turn8State = 0x8F004140"
  by code_simp

lemma reachableHash_turn8: "reachableHash 0x8F004140"
  using reachable_encoding [OF reachable_turn8] by (simp only: encode_turn8)

text \<open>
  C3, as the claim states it, fails on the enumerated set as the code reads it. The
  encoding \<open>0x8F004140\<close> of the reachable state \<open>turn8State\<close> is stored as \<open>8f004140\<close> and
  loaded as the number 2399158592; decoding this number and encoding the result gives
  \<open>-1895808704\<close>, the signed reading of the same 32 bits.
\<close>

theorem round_trip_counterexample:
  "reachableHash 0x8F004140 \<and> loadedHash 0x8F004140 = 2399158592 \<and>
   encodeGameStateHashNumber (hashToGameStateNumber 2399158592) = - 1895808704 \<and>
   encodeGameStateHashNumber (hashToGameStateNumber 2399158592) \<noteq> 2399158592"
proof -
  have "loadedHash 0x8F004140 = 2399158592"
    by code_simp
  moreover have e: "encodeGameStateHashNumber (hashToGameStateNumber 2399158592) = - 1895808704"
    by code_simp
  moreover have "encodeGameStateHashNumber (hashToGameStateNumber 2399158592) \<noteq> 2399158592"
    by (simp add: e)
  ultimately show ?thesis
    using reachableHash_turn8 by (simp only: simp_thms)
qed

text \<open>Signed and unsigned readings of 32 bits.\<close>

lemma nat_div_le_iff: "0 < q \<Longrightarrow> (m div q \<le> n) = (m < Suc n * (q::nat))"
  using div_less_iff_less_mult [of q m "Suc n"] by (simp add: less_Suc_eq_le)

lemma unsigned_small_iff: "uint (h::32 word) < 2 ^ 31 \<longleftrightarrow> uint (drop_bit 28 h) \<le> 7"
proof -
  have d: "unat (drop_bit 28 h) = unat h div 2 ^ 28"
    by (simp add: drop_bit_eq_div unat_div)
  have "(unat h div 2 ^ 28 \<le> 7) = (unat h < Suc 7 * 2 ^ 28)"
    by (rule nat_div_le_iff) simp
  also have "Suc 7 * 2 ^ 28 = (2 ^ 31 :: nat)"
    by simp
  finally have "unat (drop_bit 28 h) \<le> 7 \<longleftrightarrow> unat h < 2 ^ 31"
    by (simp only: d)
  moreover have "uint (drop_bit 28 h) \<le> 7 \<longleftrightarrow> unat (drop_bit 28 h) \<le> 7"
  proof -
    have "uint (drop_bit 28 h) \<le> 7 \<longleftrightarrow> int (unat (drop_bit 28 h)) \<le> int 7"
      by simp
    also have "\<dots> \<longleftrightarrow> unat (drop_bit 28 h) \<le> 7"
      by (rule of_nat_le_iff)
    finally show ?thesis .
  qed
  moreover have "uint h < 2 ^ 31 \<longleftrightarrow> unat h < 2 ^ 31"
  proof -
    have "uint h < 2 ^ 31 \<longleftrightarrow> int (unat h) < int (2 ^ 31)"
      by simp
    also have "\<dots> \<longleftrightarrow> unat h < 2 ^ 31"
      by (rule of_nat_less_iff)
    finally show ?thesis .
  qed
  ultimately show ?thesis
    by (simp only:)
qed

lemma uint_by_sint:
  "uint (h::32 word) = (if sint h < 0 then sint h + 2 ^ 32 else sint h)"
proof -
  have r: "- (2 ^ 31) \<le> sint h" "sint h < 2 ^ 31"
    using sint_ge [of h] sint_lt [of h] by simp_all
  have u: "uint h = sint h mod 2 ^ 32"
    by (simp add: uint_sint take_bit_eq_mod)
  show ?thesis
  proof (cases "sint h < 0")
    case True
    have "sint h mod 2 ^ 32 = (sint h + 2 ^ 32) mod 2 ^ 32"
      by simp
    also have "\<dots> = sint h + 2 ^ 32"
      using r True by (intro mod_pos_pos_trivial) simp_all
    finally show ?thesis
      using True u by simp
  next
    case False
    then have "sint h mod 2 ^ 32 = sint h"
      using r by (intro mod_pos_pos_trivial) simp_all
    with False u show ?thesis
      by simp
  qed
qed

lemma signed_is_unsigned_iff: "sint (h::32 word) = uint h \<longleftrightarrow> uint h < 2 ^ 31"
  using sint_ge [of h] sint_lt [of h] by (simp add: uint_by_sint)

lemma encode_decode_number:
  "encodeGameStateHashNumber (hashToGameStateNumber x) = sint (toInt32 x)"
  by (simp only: encodeGameStateHashNumber_def hashToGameStateNumber_def encode_decode)

lemma toInt32_sint: "toInt32 (sint h) = h"
  by (simp add: toInt32_def)

lemma toInt32_loadedHash: "toInt32 (loadedHash h) = h"
  by (simp add: toInt32_def loadedHash_def)

text \<open>
  C3, amended. For every reachable game state \<open>s\<close>, decoding the encoding of \<open>s\<close> gives \<open>s\<close>
  on every field of the state: turn, chairs, scores, shock counters and the derived status
  (the field \<open>winner\<close> of the code's \<open>GameState\<close> is not encoded, and \<open>hashToGameState\<close> leaves
  it undefined); the top 4 bits of the encoding are the turn of \<open>s\<close>. For every encoding
  \<open>h\<close> of the enumerated set: as the signed number \<open>encodeGameStateHash\<close> returned for it,
  encoding the decoded state gives the number back; as the unsigned number loaded from the
  hash files, encoding the decoded state gives the signed number of the same 32 bits, which
  is the loaded number exactly when the turn is at most 7; the top 4 bits are the decoded
  turn.
\<close>

theorem codec_round_trip:
  "(reachable s \<longrightarrow>
      hashToGameStateNumber (encodeGameStateHashNumber s) = s\<lparr> winner := None \<rparr> \<and>
      uint (drop_bit 28 (toInt32 (encodeGameStateHashNumber s))) = currentTurn s) \<and>
   (reachableHash h \<longrightarrow>
      encodeGameStateHashNumber (hashToGameStateNumber (sint h)) = sint h \<and>
      encodeGameStateHashNumber (hashToGameStateNumber (loadedHash h)) = sint h \<and>
      (encodeGameStateHashNumber (hashToGameStateNumber (loadedHash h)) = loadedHash h
         \<longleftrightarrow> currentTurn (hashToGameStateNumber (loadedHash h)) \<le> 7) \<and>
      uint (drop_bit 28 h) = currentTurn (hashToGameStateNumber (sint h)) \<and>
      uint (drop_bit 28 h) = currentTurn (hashToGameStateNumber (loadedHash h)))"
proof -
  have state: "hashToGameStateNumber (encodeGameStateHashNumber s) = s\<lparr> winner := None \<rparr> \<and>
      uint (drop_bit 28 (toInt32 (encodeGameStateHashNumber s))) = currentTurn s"
    if "reachable s"
  proof -
    from that have d: "hashToGameState (encodeGameStateHash s) = s\<lparr> winner := None \<rparr>"
      by (intro decode_encode reachable_reachInv)
    have "uint (drop_bit 28 (encodeGameStateHash s))
          = currentTurn (hashToGameState (encodeGameStateHash s))"
      by (rule top_bits_turn)
    with d show ?thesis
      by (simp add: hashToGameStateNumber_def encodeGameStateHashNumber_def toInt32_sint)
  qed
  have signed: "encodeGameStateHashNumber (hashToGameStateNumber (sint h)) = sint h"
    by (simp only: encode_decode_number toInt32_sint)
  have loaded: "encodeGameStateHashNumber (hashToGameStateNumber (loadedHash h)) = sint h"
    by (simp only: encode_decode_number toInt32_loadedHash)
  have turn_signed: "uint (drop_bit 28 h) = currentTurn (hashToGameStateNumber (sint h))"
    by (simp only: hashToGameStateNumber_def toInt32_sint top_bits_turn)
  have turn_loaded: "uint (drop_bit 28 h) = currentTurn (hashToGameStateNumber (loadedHash h))"
    by (simp only: hashToGameStateNumber_def toInt32_loadedHash top_bits_turn)
  have "sint h = loadedHash h \<longleftrightarrow> uint (drop_bit 28 h) \<le> 7"
    by (simp only: loadedHash_def signed_is_unsigned_iff unsigned_small_iff)
  then have same: "encodeGameStateHashNumber (hashToGameStateNumber (loadedHash h)) = loadedHash h
      \<longleftrightarrow> currentTurn (hashToGameStateNumber (loadedHash h)) \<le> 7"
    by (simp only: loaded turn_loaded)
  from state signed loaded same turn_signed turn_loaded show ?thesis
    by blast
qed

lemma twoShocks_no_winner: "twoShocksState\<lparr> winner := None \<rparr> = twoShocksState"
  by (simp add: twoShocksState_def)

lemma over40_hash_turn: "currentTurn (hashToGameStateNumber (loadedHash 0x60F8A860)) \<le> 7"
  by code_simp

lemma turn8_hash_turn: "\<not> currentTurn (hashToGameStateNumber (loadedHash 0x8F004140)) \<le> 7"
  by code_simp

theorem codec_round_trip_witness:
  "reachable twoShocksState \<and>
   hashToGameStateNumber (encodeGameStateHashNumber twoShocksState) = twoShocksState \<and>
   uint (drop_bit 28 (toInt32 (encodeGameStateHashNumber twoShocksState)))
     = currentTurn twoShocksState \<and>
   reachable over40State \<and>
   hashToGameStateNumber (encodeGameStateHashNumber over40State)
     = over40State\<lparr> winner := None \<rparr> \<and>
   reachableHash 0x60F8A860 \<and>
   encodeGameStateHashNumber (hashToGameStateNumber (loadedHash 0x60F8A860))
     = loadedHash 0x60F8A860 \<and>
   reachableHash 0x8F004140 \<and>
   encodeGameStateHashNumber (hashToGameStateNumber (sint (0x8F004140 :: hash)))
     = sint (0x8F004140 :: hash) \<and>
   encodeGameStateHashNumber (hashToGameStateNumber (loadedHash 0x8F004140))
     = sint (0x8F004140 :: hash) \<and>
   encodeGameStateHashNumber (hashToGameStateNumber (loadedHash 0x8F004140))
     \<noteq> loadedHash 0x8F004140"
proof -
  note a = codec_round_trip [of twoShocksState "0x60F8A860"]
  note b = codec_round_trip [of over40State "0x8F004140"]
  from a reachable_twoShocks
  have "hashToGameStateNumber (encodeGameStateHashNumber twoShocksState)
          = twoShocksState\<lparr> winner := None \<rparr> \<and>
        uint (drop_bit 28 (toInt32 (encodeGameStateHashNumber twoShocksState)))
          = currentTurn twoShocksState"
    by blast
  then have s1: "hashToGameStateNumber (encodeGameStateHashNumber twoShocksState)
          = twoShocksState"
    and s2: "uint (drop_bit 28 (toInt32 (encodeGameStateHashNumber twoShocksState)))
          = currentTurn twoShocksState"
    by (simp_all only: twoShocks_no_winner)
  from b reachable_over40
  have s3: "hashToGameStateNumber (encodeGameStateHashNumber over40State)
          = over40State\<lparr> winner := None \<rparr>"
    by blast
  from a reachableHash_over40 over40_hash_turn
  have s4: "encodeGameStateHashNumber (hashToGameStateNumber (loadedHash 0x60F8A860))
          = loadedHash 0x60F8A860"
    by blast
  from b reachableHash_turn8
  have s5: "encodeGameStateHashNumber (hashToGameStateNumber (sint (0x8F004140 :: hash)))
          = sint (0x8F004140 :: hash)"
    and s6: "encodeGameStateHashNumber (hashToGameStateNumber (loadedHash 0x8F004140))
          = sint (0x8F004140 :: hash)"
    by blast+
  from b reachableHash_turn8 turn8_hash_turn
  have s7: "encodeGameStateHashNumber (hashToGameStateNumber (loadedHash 0x8F004140))
          \<noteq> loadedHash 0x8F004140"
    by blast
  from s1 s2 s3 s4 s5 s6 s7 reachable_twoShocks reachable_over40 reachableHash_over40
    reachableHash_turn8
  show ?thesis
    by (simp only: simp_thms)
qed

section \<open>processTurn leaves its argument as it was\<close>

lemma lookup_append_old: "p < length h \<Longrightarrow> lookup (h @ xs) p = lookup h p"
  by (simp add: lookup_def nth_append)

lemma lookup_new_array: "lookup (h @ [x, y]) (length h) = Some x"
  by (simp add: lookup_def)

lemma lookup_new_object: "lookup (h @ [x, y]) (Suc (length h)) = Some y"
  by (simp add: lookup_def nth_append)

lemma updateObject_new:
  "updateObject (h @ [x, ObjectCell obj]) (Suc (length h)) f = h @ [x, ObjectCell (f obj)]"
  by (simp add: updateObject_def lookup_new_object list_update_append)

lemma writeChair_new:
  "chairsRemaining obj = length h \<Longrightarrow>
   writeChair (h @ [ArrayCell cs, ObjectCell obj]) (Suc (length h)) i v
     = h @ [ArrayCell (array_set cs i v), ObjectCell obj]"
  by (simp add: writeChair_def lookup_new_object lookup_new_array list_update_append)

lemma readState_new:
  "chairsRemaining obj = length h \<Longrightarrow>
   readState (h @ [ArrayCell cs, ObjectCell obj]) (Suc (length h)) = Some (withChairs obj cs)"
  by (simp add: readState_def lookup_new_object lookup_new_array)

lemma readWith_new:
  "chairsRemaining obj = length h \<Longrightarrow>
   readWith (h @ [ArrayCell cs, ObjectCell obj]) (Suc (length h)) f dflt = f (withChairs obj cs)"
  by (simp add: readWith_def readState_new)

lemma withChairs_fields:
  "currentTurn (withChairs obj c) = currentTurn obj"
  "chairsRemaining (withChairs obj c) = c"
  "player1Score (withChairs obj c) = player1Score obj"
  "player2Score (withChairs obj c) = player2Score obj"
  "player1ElectricCount (withChairs obj c) = player1ElectricCount obj"
  "player2ElectricCount (withChairs obj c) = player2ElectricCount obj"
  "gameStatus (withChairs obj c) = gameStatus obj"
  "winner (withChairs obj c) = winner obj"
  by (simp_all add: withChairs_def)

lemma applyChoicesStore_new:
  assumes "chairsRemaining obj = length h"
  shows "applyChoicesStore (h @ [ArrayCell cs, ObjectCell obj]) (Suc (length h))
           (getCurrentAttacker (currentTurn obj)) a d
         = h @ [ArrayCell (chairsRemaining (fst (applyChoices (withChairs obj cs) a d))),
                ObjectCell (withChairs (fst (applyChoices (withChairs obj cs) a d)) (length h))]"
proof (cases "a = d")
  case True
  then show ?thesis
    using assms
    by (cases obj)
       (simp add: applyChoicesStore_def applyChoices_def updateObject_new withChairs_def)
next
  case False
  then show ?thesis
    using assms
    by (cases obj)
       (simp add: applyChoicesStore_def applyChoices_def updateObject_new writeChair_new
          withChairs_def Let_def)
qed

lemma finishTurnStore_new:
  assumes "chairsRemaining obj = length h"
  shows "finishTurnStore (h @ [ArrayCell cs, ObjectCell obj]) (Suc (length h))
         = h @ [ArrayCell cs, ObjectCell (withChairs (finishTurn (withChairs obj cs)) (length h))]"
proof -
  define st where "st = checkGameEnd (withChairs obj cs)"
  have h4: "updateObject (h @ [ArrayCell cs, ObjectCell obj]) (Suc (length h))
              (\<lambda>ns. ns\<lparr> gameStatus := readWith (h @ [ArrayCell cs, ObjectCell obj])
                                         (Suc (length h)) checkGameEnd IN_PROGRESS \<rparr>)
            = h @ [ArrayCell cs, ObjectCell (obj\<lparr> gameStatus := st \<rparr>)]"
    by (simp add: updateObject_new readWith_new assms st_def)
  define w where "w = getWinner ((withChairs obj cs)\<lparr> gameStatus := st \<rparr>)"
  have wc: "withChairs (obj\<lparr> gameStatus := st \<rparr>) cs = (withChairs obj cs)\<lparr> gameStatus := st \<rparr>"
    by (simp add: withChairs_def)
  have h5: "updateObject (h @ [ArrayCell cs, ObjectCell (obj\<lparr> gameStatus := st \<rparr>)])
              (Suc (length h))
              (\<lambda>ns. ns\<lparr> winner := readWith (h @ [ArrayCell cs, ObjectCell (obj\<lparr> gameStatus := st \<rparr>)])
                                     (Suc (length h)) getWinner None \<rparr>)
            = h @ [ArrayCell cs, ObjectCell (obj\<lparr> gameStatus := st, winner := w \<rparr>)]"
    by (simp add: updateObject_new readWith_new assms wc w_def)
  have rd: "readWith (h @ [ArrayCell cs, ObjectCell (obj\<lparr> gameStatus := st, winner := w \<rparr>)])
              (Suc (length h)) gameStatus IN_PROGRESS = st"
    by (simp add: readWith_new assms withChairs_fields)
  have lhs: "finishTurnStore (h @ [ArrayCell cs, ObjectCell obj]) (Suc (length h))
             = h @ [ArrayCell cs, ObjectCell
                 (if st = IN_PROGRESS
                  then obj\<lparr> gameStatus := st, winner := w, currentTurn := currentTurn obj + 1 \<rparr>
                  else obj\<lparr> gameStatus := st, winner := w \<rparr>)]"
    unfolding finishTurnStore_def Let_def h4 h5 rd
    by (simp add: updateObject_new)
  have rhs: "withChairs (finishTurn (withChairs obj cs)) (length h)
             = (if st = IN_PROGRESS
                then obj\<lparr> gameStatus := st, winner := w, currentTurn := currentTurn obj + 1 \<rparr>
                else obj\<lparr> gameStatus := st, winner := w \<rparr>)"
    unfolding st_def w_def using assms
    by (cases obj) (simp add: finishTurn_def Let_def withChairs_def)
  show ?thesis
    by (simp only: lhs rhs)
qed

lemma withChairs_again: "withChairs (withChairs s c) c' = withChairs s c'"
  by (simp add: withChairs_def)

lemma withChairs_same: "withChairs (withChairs s c) (chairsRemaining s) = s"
  by (cases s) (simp add: withChairs_def)

lemma chairsRemaining_finishTurn: "chairsRemaining (finishTurn s) = chairsRemaining s"
  by (simp add: finishTurn_def Let_def)

text \<open>The store after the call, in one piece.\<close>

lemma processTurnStore_explicit:
  assumes g: "lookup h g = Some (ObjectCell obj)"
    and c: "lookup h (chairsRemaining obj) = Some (ArrayCell cs)"
  shows "\<exists>r. processTurnStore h g a d =
           Some (h @ [ArrayCell (chairsRemaining (newGameState (processTurn (withChairs obj cs) a d))),
                      ObjectCell (withChairs (newGameState (processTurn (withChairs obj cs) a d))
                                    (length h))], r) \<and>
           newGameState r = Suc (length h)"
proof -
  define s1 where "s1 = fst (applyChoices (withChairs obj cs) a d)"
  have h3: "applyChoicesStore (h @ [ArrayCell cs, ObjectCell (withChairs obj (length h))])
              (Suc (length h)) (getCurrentAttacker (currentTurn obj)) a d
            = h @ [ArrayCell (chairsRemaining s1), ObjectCell (withChairs s1 (length h))]"
    using applyChoicesStore_new [of "withChairs obj (length h)" h cs a d]
    by (simp add: withChairs_fields withChairs_again s1_def)
  have h6: "finishTurnStore (h @ [ArrayCell (chairsRemaining s1), ObjectCell (withChairs s1 (length h))])
              (Suc (length h))
            = h @ [ArrayCell (chairsRemaining (finishTurn s1)),
                   ObjectCell (withChairs (finishTurn s1) (length h))]"
    using finishTurnStore_new [of "withChairs s1 (length h)" h "chairsRemaining s1"]
    by (simp add: withChairs_fields withChairs_same chairsRemaining_finishTurn)
  have s': "newGameState (processTurn (withChairs obj cs) a d) = finishTurn s1"
    by (simp add: newGameState_processTurn s1_def)
  show ?thesis
    by (simp add: processTurnStore_def g c s' alloc_def Let_def h3 h6)
qed

text \<open>
  C10. \<open>processTurn\<close> does not modify its input. Called on the address of a state, it returns
  a store in which every cell that existed before the call is as it was, in particular the
  input object and its \<open>chairsRemaining\<close> array, so the input state reads as before; the
  successor is a new object with a new array, at addresses that did not exist before the
  call, and it reads as the successor the value model computes.
\<close>

theorem processTurnStore_frame:
  assumes "lookup h g = Some (ObjectCell obj)"
    and "lookup h (chairsRemaining obj) = Some (ArrayCell cs)"
  shows "\<exists>h' r obj'. processTurnStore h g a d = Some (h', r) \<and>
           (\<forall>p. p < length h \<longrightarrow> lookup h' p = lookup h p) \<and>
           lookup h' g = Some (ObjectCell obj) \<and>
           lookup h' (chairsRemaining obj) = Some (ArrayCell cs) \<and>
           readState h' g = readState h g \<and>
           lookup h (newGameState r) = None \<and>
           lookup h' (newGameState r) = Some (ObjectCell obj') \<and>
           lookup h (chairsRemaining obj') = None \<and>
           readState h' (newGameState r)
             = Some (newGameState (processTurn (withChairs obj cs) a d))"
proof -
  define s' where "s' = newGameState (processTurn (withChairs obj cs) a d)"
  define h' where "h' = h @ [ArrayCell (chairsRemaining s'), ObjectCell (withChairs s' (length h))]"
  from assms have lt: "g < length h" "chairsRemaining obj < length h"
    by (simp_all add: lookup_def split: if_splits)
  from processTurnStore_explicit [OF assms, of a d]
  obtain r where res: "processTurnStore h g a d = Some (h', r)"
    and target: "newGameState r = Suc (length h)"
    unfolding h'_def s'_def by blast
  have old: "lookup h' p = lookup h p" if "p < length h" for p
    using that by (simp add: h'_def lookup_append_old)
  have c1: "\<forall>p. p < length h \<longrightarrow> lookup h' p = lookup h p"
    using old by blast
  have c2: "lookup h' g = Some (ObjectCell obj)"
    using old [OF lt(1)] assms(1) by simp
  have c3: "lookup h' (chairsRemaining obj) = Some (ArrayCell cs)"
    using old [OF lt(2)] assms(2) by simp
  have c4: "readState h' g = readState h g"
    by (simp add: readState_def c2 c3 assms)
  have c5: "lookup h (newGameState r) = None"
    by (simp add: target lookup_def)
  have c6: "lookup h' (newGameState r) = Some (ObjectCell (withChairs s' (length h)))"
    by (simp add: target h'_def lookup_new_object)
  have c7: "lookup h (chairsRemaining (withChairs s' (length h))) = None"
    by (simp add: lookup_def withChairs_fields)
  have "readState h' (newGameState r) = Some (withChairs (withChairs s' (length h)) (chairsRemaining s'))"
    unfolding target h'_def
    by (rule readState_new) (simp add: withChairs_fields)
  then have c8: "readState h' (newGameState r)
             = Some (newGameState (processTurn (withChairs obj cs) a d))"
    by (simp add: withChairs_same s'_def)
  from res c1 c2 c3 c4 c5 c6 c7 c8 show ?thesis
    by (intro exI [of _ h'] exI [of _ r] exI [of _ "withChairs s' (length h)"] conjI)
qed

lemma initialStore_object: "lookup initialStore 1 = Some (ObjectCell initialObject)"
  by (simp add: initialStore_def lookup_def)

lemma initialStore_array:
  "lookup initialStore (chairsRemaining initialObject) = Some (ArrayCell (replicate 12 True))"
  by (simp add: initialStore_def initialObject_def lookup_def withChairs_fields)

lemma initialObject_value: "withChairs initialObject (replicate 12 True) = INITIAL_GAME_STATE"
  by (simp add: initialObject_def withChairs_def INITIAL_GAME_STATE_def)

theorem processTurnStore_frame_witness:
  "lookup initialStore 1 = Some (ObjectCell initialObject) \<and>
   lookup initialStore (chairsRemaining initialObject) = Some (ArrayCell (replicate 12 True)) \<and>
   (\<exists>h' r. processTurnStore initialStore 1 1 2 = Some (h', r) \<and>
      lookup h' 1 = Some (ObjectCell initialObject) \<and>
      lookup h' 0 = Some (ArrayCell (replicate 12 True)) \<and>
      readState h' 1 = Some INITIAL_GAME_STATE \<and>
      lookup initialStore (newGameState r) = None \<and>
      readState h' (newGameState r)
        = Some (newGameState (processTurn INITIAL_GAME_STATE 1 2)))"
proof -
  have rd: "readState initialStore 1 = Some INITIAL_GAME_STATE"
    using initialStore_object initialStore_array
    by (simp add: readState_def initialObject_value)
  have zero: "chairsRemaining initialObject = 0"
    by (simp add: initialObject_def withChairs_fields)
  from processTurnStore_frame [OF initialStore_object initialStore_array, of 1 2]
  obtain h' r where f: "processTurnStore initialStore 1 1 2 = Some (h', r)"
      "lookup h' 1 = Some (ObjectCell initialObject)"
      "lookup h' (chairsRemaining initialObject) = Some (ArrayCell (replicate 12 True))"
      "readState h' 1 = readState initialStore 1"
      "lookup initialStore (newGameState r) = None"
      "readState h' (newGameState r)
         = Some (newGameState (processTurn (withChairs initialObject (replicate 12 True)) 1 2))"
    by blast
  from f(3) have a: "lookup h' 0 = Some (ArrayCell (replicate 12 True))"
    by (simp only: zero)
  from f(4) have b: "readState h' 1 = Some INITIAL_GAME_STATE"
    by (simp only: rd)
  from f(6) have c: "readState h' (newGameState r)
        = Some (newGameState (processTurn INITIAL_GAME_STATE 1 2))"
    by (simp only: initialObject_value)
  from f(1) f(2) a b f(5) c
  have "\<exists>h' r. processTurnStore initialStore 1 1 2 = Some (h', r) \<and>
      lookup h' 1 = Some (ObjectCell initialObject) \<and>
      lookup h' 0 = Some (ArrayCell (replicate 12 True)) \<and>
      readState h' 1 = Some INITIAL_GAME_STATE \<and>
      lookup initialStore (newGameState r) = None \<and>
      readState h' (newGameState r)
        = Some (newGameState (processTurn INITIAL_GAME_STATE 1 2))"
    by blast
  with initialStore_object initialStore_array show ?thesis
    by (intro conjI)
qed

section \<open>processTurn and its preconditions\<close>

lemma over40Store_state: "readState over40Store 1 = Some over40State"
  by code_simp

text \<open>
  C6, as the claim states it, fails: \<open>processTurn\<close> checks nothing and raises nothing. Called
  on the finished game \<open>over40State\<close> (Player 1 has won with 42 points) with chair 13, which
  does not exist, it returns a result: a new state in which Player 1 has 42 + 13 = 55
  points and the array has a thirteenth entry.
\<close>

theorem fail_loudly_counterexample:
  "readState over40Store 1 = Some over40State \<and>
   gameStatus over40State \<noteq> IN_PROGRESS \<and> \<not> legalChoice over40State 13 \<and>
   processTurnStore over40Store 1 13 1 =
     Some (over40Store @
             [ArrayCell [False, False, False, True, True, True, True, True,
                         False, False, False, False, False],
              ObjectCell \<lparr> currentTurn = 6, chairsRemaining = 2,
                           player1Score = 55, player2Score = 6,
                           player1ElectricCount = 0, player2ElectricCount = 0,
                           gameStatus = PLAYER1_WIN, winner = Some PLAYER1 \<rparr>],
           \<lparr> attacker = PLAYER1, defender = PLAYER2,
             attackerChoice = 13, defenderChoice = 1, matched = False,
             scoreGained = 13, electricReceived = False, chairRemoved = Some 13,
             newGameState = 3 \<rparr>)"
  by code_simp

lemma processTurnStore_matched:
  "processTurnStore h g a d = Some (h', r) \<Longrightarrow> matched r = (a = d)"
  by (auto simp: processTurnStore_def Let_def alloc_def split: option.splits cell.splits)

lemma matched_shockBranch: "shockBranch s (newGameState (processTurn s a a))"
  by (simp add: newGameState_processTurn finishTurn_def applyChoices_def Let_def
      shockBranch_def getChairSelector_def scoreOf_def electricOf_def
      split: PlayerNumber.splits)

lemma unmatched_scores:
  assumes "a \<noteq> d"
  shows "scoreOf (getChairSelector (currentTurn s)) (newGameState (processTurn s a d))
           = scoreOf (getChairSelector (currentTurn s)) s + a \<and>
         scoreOf (getElectricSetter (currentTurn s)) (newGameState (processTurn s a d))
           = scoreOf (getElectricSetter (currentTurn s)) s \<and>
         electricOf (getElectricSetter (currentTurn s)) (newGameState (processTurn s a d))
           = electricOf (getElectricSetter (currentTurn s)) s"
  using assms
  by (simp add: newGameState_processTurn finishTurn_def applyChoices_def Let_def
      getChairSelector_def getElectricSetter_def getCurrentAttacker_def getCurrentDefender_def
      scoreOf_def electricOf_def)

text \<open>
  C6, amended. \<open>processTurn\<close> checks no precondition and raises no error. Its body has no
  \<open>throw\<close>; it reads fields of its argument, copies the array, assigns to fields and to one
  array index, and calls \<open>checkGameEnd\<close> and \<open>getWinner\<close>, which read fields only. The one
  way such code fails is a read through an argument that is no \<open>GameState\<close> object with its
  array, which is the result \<open>None\<close> of the store model. So, called on any game state with
  any two integers, whether or not the state is in progress and the chairs are present, it
  returns a result whose new state can be read. The result is computed by the two branches:
  equal choices set the selector's score to 0 and raise the selector's shock counter by 1,
  removing no chair; different choices add the selector's choice to the selector's score
  and leave the setter's score and shock counter as they were.
\<close>

theorem processTurn_never_raises:
  assumes "readState h g = Some s"
  shows "\<exists>h' r s'. processTurnStore h g a d = Some (h', r) \<and>
           readState h' (newGameState r) = Some s' \<and>
           matched r = (a = d) \<and>
           (a = d \<and> smallInteger (electricOf (getChairSelector (currentTurn s)) s) \<longrightarrow>
              shockBranch s s') \<and>
           (a \<noteq> d \<and> smallInteger (scoreOf (getChairSelector (currentTurn s)) s) \<and>
              smallInteger a \<longrightarrow>
              scoreOf (getChairSelector (currentTurn s)) s'
                = scoreOf (getChairSelector (currentTurn s)) s + a \<and>
              scoreOf (getElectricSetter (currentTurn s)) s'
                = scoreOf (getElectricSetter (currentTurn s)) s \<and>
              electricOf (getElectricSetter (currentTurn s)) s'
                = electricOf (getElectricSetter (currentTurn s)) s)"
proof -
  from assms obtain obj cs where g: "lookup h g = Some (ObjectCell obj)"
    and c: "lookup h (chairsRemaining obj) = Some (ArrayCell cs)"
    and s: "s = withChairs obj cs"
    by (auto simp: readState_def split: option.splits cell.splits)
  define s' where "s' = newGameState (processTurn s a d)"
  define h' where "h' = h @ [ArrayCell (chairsRemaining s'), ObjectCell (withChairs s' (length h))]"
  from processTurnStore_explicit [OF g c, of a d]
  obtain r where res: "processTurnStore h g a d = Some (h', r)"
    and target: "newGameState r = Suc (length h)"
    unfolding h'_def s'_def s by blast
  have "readState h' (newGameState r)
          = Some (withChairs (withChairs s' (length h)) (chairsRemaining s'))"
    unfolding target h'_def
    by (rule readState_new) (simp add: withChairs_fields)
  then have rd: "readState h' (newGameState r) = Some s'"
    by (simp add: withChairs_same)
  from res have m: "matched r = (a = d)"
    by (rule processTurnStore_matched)
  have shock: "a = d \<and> smallInteger (electricOf (getChairSelector (currentTurn s)) s) \<longrightarrow>
      shockBranch s s'"
    unfolding s'_def using matched_shockBranch [of s a] by blast
  have score: "a \<noteq> d \<and> smallInteger (scoreOf (getChairSelector (currentTurn s)) s) \<and>
      smallInteger a \<longrightarrow>
      scoreOf (getChairSelector (currentTurn s)) s'
        = scoreOf (getChairSelector (currentTurn s)) s + a \<and>
      scoreOf (getElectricSetter (currentTurn s)) s'
        = scoreOf (getElectricSetter (currentTurn s)) s \<and>
      electricOf (getElectricSetter (currentTurn s)) s'
        = electricOf (getElectricSetter (currentTurn s)) s"
    unfolding s'_def using unmatched_scores [of a d s] by blast
  from res rd m shock score show ?thesis
    by (intro exI [of _ h'] exI [of _ r] exI [of _ s'] conjI)
qed

lemma over40_terminal: "gameStatus over40State \<noteq> IN_PROGRESS"
  by code_simp

lemma over40_no_chair_13: "\<not> legalChoice over40State 13"
  by code_simp

lemma over40_selector: "getChairSelector (currentTurn over40State) = PLAYER1"
  by code_simp

lemma over40_score: "scoreOf PLAYER1 over40State = 42"
  by code_simp

lemma over40_electric: "electricOf PLAYER1 over40State = 0"
  by code_simp

lemma small_values: "smallInteger 0" "smallInteger 13" "smallInteger 42"
  by (simp_all add: smallInteger_def)

theorem processTurn_never_raises_witness:
  "readState over40Store 1 = Some over40State \<and>
   gameStatus over40State \<noteq> IN_PROGRESS \<and> \<not> legalChoice over40State 13 \<and>
   smallInteger 13 \<and> smallInteger (scoreOf PLAYER1 over40State) \<and>
   smallInteger (electricOf PLAYER1 over40State) \<and>
   (\<exists>h' r s'. processTurnStore over40Store 1 13 1 = Some (h', r) \<and>
      readState h' (newGameState r) = Some s' \<and> \<not> matched r \<and>
      scoreOf PLAYER1 s' = 55) \<and>
   (\<exists>h' r s'. processTurnStore over40Store 1 13 13 = Some (h', r) \<and>
      readState h' (newGameState r) = Some s' \<and> matched r \<and>
      shockBranch over40State s')"
proof -
  from processTurn_never_raises [OF over40Store_state, of 13 1]
  obtain h1 r1 s1 where f: "processTurnStore over40Store 1 13 1 = Some (h1, r1)"
      "readState h1 (newGameState r1) = Some s1"
      "matched r1 = ((13::int) = 1)"
      "(13::int) \<noteq> 1 \<and>
         smallInteger (scoreOf (getChairSelector (currentTurn over40State)) over40State) \<and>
         smallInteger 13 \<longrightarrow>
         scoreOf (getChairSelector (currentTurn over40State)) s1
           = scoreOf (getChairSelector (currentTurn over40State)) over40State + 13 \<and>
         scoreOf (getElectricSetter (currentTurn over40State)) s1
           = scoreOf (getElectricSetter (currentTurn over40State)) over40State \<and>
         electricOf (getElectricSetter (currentTurn over40State)) s1
           = electricOf (getElectricSetter (currentTurn over40State)) over40State"
    by blast
  from f(3) have m1: "\<not> matched r1"
    by simp
  from f(4) have "scoreOf PLAYER1 s1 = 55"
    by (simp add: over40_selector over40_score small_values)
  with f(1) f(2) m1
  have first: "\<exists>h' r s'. processTurnStore over40Store 1 13 1 = Some (h', r) \<and>
      readState h' (newGameState r) = Some s' \<and> \<not> matched r \<and> scoreOf PLAYER1 s' = 55"
    by blast
  from processTurn_never_raises [OF over40Store_state, of 13 13]
  obtain h2 r2 s2 where e: "processTurnStore over40Store 1 13 13 = Some (h2, r2)"
      "readState h2 (newGameState r2) = Some s2"
      "matched r2 = ((13::int) = 13)"
      "(13::int) = 13 \<and>
         smallInteger (electricOf (getChairSelector (currentTurn over40State)) over40State) \<longrightarrow>
         shockBranch over40State s2"
    by blast
  from e(3) have m2: "matched r2"
    by simp
  from e(4) have "shockBranch over40State s2"
    by (simp add: over40_selector over40_electric small_values)
  with e(1) e(2) m2
  have second: "\<exists>h' r s'. processTurnStore over40Store 1 13 13 = Some (h', r) \<and>
      readState h' (newGameState r) = Some s' \<and> matched r \<and> shockBranch over40State s'"
    by blast
  have small: "smallInteger (scoreOf PLAYER1 over40State)"
    "smallInteger (electricOf PLAYER1 over40State)"
    by (simp_all add: over40_score over40_electric small_values)
  from over40Store_state over40_terminal over40_no_chair_13 small_values(2) small first second
  show ?thesis
    by (intro conjI)
qed

end
